theory Spec2Isabelle
  imports Main
begin

section \<open>Paths\<close>

text \<open>
  A path is the ordered sequence of its segments (spec, section 3); every path handed to
  the adapter is absolute and normalised, and the empty sequence is the root \<open>/\<close>.
\<close>

type_synonym path = "string list"

text \<open>
  \<open>os.path.split\<close> on such a path: the parent and the final segment;
  \<open>os.path.split('/')\<close> is \<open>('/', '')\<close>.
\<close>

definition split_path :: "path \<Rightarrow> path \<times> string" where
  "split_path p = (butlast p, if p = [] then [] else last p)"

text \<open>
  Modelled from the spec: \<open>fs_connection.dir\<close> and \<open>fs_connection.name\<close> of the attila
  library (not part of this repository): the parent of a path and its final segment.
\<close>

definition dir :: "path \<Rightarrow> path" where
  "dir p = fst (split_path p)"

definition name :: "path \<Rightarrow> string" where
  "name p = snd (split_path p)"

section \<open>The remote store and the session\<close>

datatype node = Dir | File string nat

record attrs =
  st_size :: nat
  st_mtime :: nat

text \<open>
  The value handed to \<open>SFTPClient.stat\<close>: the checked path string, or a \<open>Path\<close> object
  wrapping it.
\<close>

datatype stat_arg = StrArg path | PathArg path

type_synonym local_path = "string \<times> nat"

text \<open>The calls issued on the protocol session, in the order they are made.\<close>

datatype call =
    Listdir
  | Chdir path
  | Stat stat_arg
  | Mkdir path
  | Rmdir string
  | Remove string
  | Rename string string
  | Get string local_path
  | Put local_path string
  | Close

datatype error =
    AssertionError
  | TypeError
  | IOError
  | DirectoryNotEmptyError path
  | FileExistsError path
  | NotADirectoryError path
  | AttributeError
  | RecursionError

text \<open>
  The connection object together with what it talks to.
  \<open>c_is_open\<close> is \<open>self._is_open\<close>; \<open>c_session\<close> is \<open>self._session\<close>, \<open>None\<close> or the
  protocol client, of which the adapter only observes the working directory;
  \<open>c_cwd\<close> is the working directory cached by the base class.
  \<open>remote\<close> is the server's tree as an association list from paths to nodes (the root
  is always a directory and has no entry); \<open>stale\<close> lists names that the server reports in
  the listing of a directory although nothing is there; \<open>clock\<close> is the server's time.
  \<open>staging\<close> is the local staging area for proxy files and \<open>temp_count\<close> numbers its
  temporary files. \<open>calls\<close> logs the protocol calls.
\<close>

record conn =
  c_is_open :: bool
  c_session :: "path option"
  c_cwd :: "path option"
  remote :: "(path \<times> node) list"
  stale :: "(path \<times> string) list"
  clock :: nat
  staging :: "(local_path \<times> string) list"
  temp_count :: nat
  calls :: "call list"

subsection \<open>Results and exceptions\<close>

type_synonym 'a io = "conn \<Rightarrow> (error + 'a) \<times> conn"

definition return :: "'a \<Rightarrow> 'a io" where
  "return x s = (Inr x, s)"

definition raise :: "error \<Rightarrow> 'a io" where
  "raise e s = (Inl e, s)"

definition bind :: "'a io \<Rightarrow> ('a \<Rightarrow> 'b io) \<Rightarrow> 'b io" where
  "bind m f s = (case m s of (Inl e, s') \<Rightarrow> (Inl e, s') | (Inr x, s') \<Rightarrow> f x s')"

text \<open>\<open>try: m; return True; except Exception: return False\<close>\<close>

definition succeeds :: "'a io \<Rightarrow> bool io" where
  "succeeds m s = (case m s of (Inl e, s') \<Rightarrow> (Inr False, s') | (Inr x, s') \<Rightarrow> (Inr True, s'))"

definition log_call :: "call \<Rightarrow> conn \<Rightarrow> conn" where
  "log_call c s = s\<lparr>calls := calls s @ [c]\<rparr>"

subsection \<open>The server's tree\<close>

definition lookup :: "(path \<times> node) list \<Rightarrow> path \<Rightarrow> node option" where
  "lookup fs p = (if p = [] then Some Dir else map_of fs p)"

definition children :: "(path \<times> node) list \<Rightarrow> path \<Rightarrow> string list" where
  "children fs d = map (\<lambda>(p, n). last p) (filter (\<lambda>(p, n). p \<noteq> [] \<and> butlast p = d) fs)"

definition delete :: "path \<Rightarrow> (path \<times> node) list \<Rightarrow> (path \<times> node) list" where
  "delete p fs = filter (\<lambda>(q, n). q \<noteq> p) fs"

text \<open>A bare name is resolved against the session's working directory.\<close>

definition resolve :: "path \<Rightarrow> string \<Rightarrow> path" where
  "resolve cwd n = (if n = [] then cwd else cwd @ [n])"

definition move :: "path \<Rightarrow> path \<Rightarrow> path \<Rightarrow> path" where
  "move src dst q = (if take (length src) q = src then dst @ drop (length src) q else q)"

subsection \<open>The protocol primitives\<close>

text \<open>
  The calls of the protocol client that the adapter uses. Each one is logged, acts on the
  server's tree relative to the session's working directory, and fails with \<open>IOError\<close>
  where the server refuses. The client encodes its path argument before anything is sent
  and raises \<open>TypeError\<close> for an argument that is not a string.
\<close>

definition session_listdir :: "string list io" where
  "session_listdir s =
     (let s1 = log_call Listdir s in
      case c_session s1 of
        None \<Rightarrow> (Inl IOError, s1)
      | Some cwd \<Rightarrow>
          if lookup (remote s1) cwd = Some Dir
          then (Inr (children (remote s1) cwd @ map snd (filter (\<lambda>(d, n). d = cwd) (stale s1))), s1)
          else (Inl IOError, s1))"

definition session_chdir :: "path \<Rightarrow> unit io" where
  "session_chdir p s =
     (let s1 = log_call (Chdir p) s in
      case c_session s1 of
        None \<Rightarrow> (Inl IOError, s1)
      | Some cwd \<Rightarrow>
          if lookup (remote s1) p = Some Dir
          then (Inr (), s1\<lparr>c_session := Some p\<rparr>)
          else (Inl IOError, s1))"

definition session_stat :: "stat_arg \<Rightarrow> attrs io" where
  "session_stat a s =
     (let s1 = log_call (Stat a) s in
      case c_session s1 of
        None \<Rightarrow> (Inl IOError, s1)
      | Some cwd \<Rightarrow>
          (case a of
             PathArg p \<Rightarrow> (Inl TypeError, s1)
           | StrArg p \<Rightarrow>
               (case lookup (remote s1) p of
                  None \<Rightarrow> (Inl IOError, s1)
                | Some Dir \<Rightarrow> (Inr \<lparr>st_size = 0, st_mtime = 0\<rparr>, s1)
                | Some (File c m) \<Rightarrow> (Inr \<lparr>st_size = length c, st_mtime = m\<rparr>, s1))))"

definition session_mkdir :: "path \<Rightarrow> unit io" where
  "session_mkdir p s =
     (let s1 = log_call (Mkdir p) s in
      case c_session s1 of
        None \<Rightarrow> (Inl IOError, s1)
      | Some cwd \<Rightarrow>
          if p \<noteq> [] \<and> lookup (remote s1) p = None \<and> lookup (remote s1) (butlast p) = Some Dir
          then (Inr (), s1\<lparr>remote := (p, Dir) # remote s1\<rparr>)
          else (Inl IOError, s1))"

definition session_rmdir :: "string \<Rightarrow> unit io" where
  "session_rmdir n s =
     (let s1 = log_call (Rmdir n) s in
      case c_session s1 of
        None \<Rightarrow> (Inl IOError, s1)
      | Some cwd \<Rightarrow>
          (let p = resolve cwd n in
           if p \<noteq> [] \<and> lookup (remote s1) p = Some Dir \<and> children (remote s1) p = []
           then (Inr (), s1\<lparr>remote := delete p (remote s1)\<rparr>)
           else (Inl IOError, s1)))"

definition session_remove :: "string \<Rightarrow> unit io" where
  "session_remove n s =
     (let s1 = log_call (Remove n) s in
      case c_session s1 of
        None \<Rightarrow> (Inl IOError, s1)
      | Some cwd \<Rightarrow>
          (let p = resolve cwd n in
           case lookup (remote s1) p of
             Some (File c m) \<Rightarrow> (Inr (), s1\<lparr>remote := delete p (remote s1)\<rparr>)
           | _ \<Rightarrow> (Inl IOError, s1)))"

definition session_rename :: "string \<Rightarrow> string \<Rightarrow> unit io" where
  "session_rename old new s =
     (let s1 = log_call (Rename old new) s in
      case c_session s1 of
        None \<Rightarrow> (Inl IOError, s1)
      | Some cwd \<Rightarrow>
          (let p = resolve cwd old; q = resolve cwd new in
           if p \<noteq> [] \<and> q \<noteq> [] \<and> lookup (remote s1) p \<noteq> None \<and> lookup (remote s1) q = None
              \<and> lookup (remote s1) (butlast q) = Some Dir
           then (Inr (), s1\<lparr>remote := map (\<lambda>(r, n). (move p q r, n)) (remote s1)\<rparr>)
           else (Inl IOError, s1)))"

definition session_get :: "string \<Rightarrow> local_path \<Rightarrow> unit io" where
  "session_get n l s =
     (let s1 = log_call (Get n l) s in
      case c_session s1 of
        None \<Rightarrow> (Inl IOError, s1)
      | Some cwd \<Rightarrow>
          (case lookup (remote s1) (resolve cwd n) of
             Some (File c m) \<Rightarrow> (Inr (), s1\<lparr>staging := (l, c) # staging s1\<rparr>)
           | _ \<Rightarrow> (Inl IOError, s1)))"


definition session_close :: "unit io" where
  "session_close s = (Inr (), log_call Close s)"

section \<open>The connection\<close>

text \<open>
  \<open>sftp_connection.close\<close>: the session is dropped and the connection marked closed
  whether or not the session's own \<open>close\<close> succeeds.
\<close>

definition close :: "unit io" where
  "close s =
     (if \<not> c_is_open s then (Inl AssertionError, s)
      else
        (case (case c_session s of None \<Rightarrow> (Inl AttributeError, s) | Some cwd \<Rightarrow> session_close s) of
           (r, s1) \<Rightarrow> (r, s1\<lparr>c_is_open := False, c_session := None\<rparr>)))"

text \<open>
  The property \<open>sftp_connection.is_open\<close>: a connection that claims to be open is probed
  with a listing and demoted when the probe fails. It never raises.
\<close>

definition is_open :: "conn \<Rightarrow> bool \<times> conn" where
  "is_open s =
     (let s' =
        (if c_is_open s then
           (case c_session s of
              None \<Rightarrow> s\<lparr>c_is_open := False\<rparr>
            | Some cwd \<Rightarrow>
                (case session_listdir s of
                   (Inl e, s1) \<Rightarrow> (case close s1 of (r, s2) \<Rightarrow> s2\<lparr>c_is_open := False\<rparr>)
                 | (Inr l, s1) \<Rightarrow> s1))
         else s)
      in (c_is_open s', s'))"

text \<open>\<open>assert self.is_open\<close>\<close>

definition assert_open :: "unit io" where
  "assert_open s = (case is_open s of (True, s1) \<Rightarrow> (Inr (), s1) | (False, s1) \<Rightarrow> (Inl AssertionError, s1))"

text \<open>
  \<open>sftp_connection.chdir\<close>: the base class caches the working directory, then the
  session follows when the connection is open.
\<close>

definition chdir :: "path \<Rightarrow> unit io" where
  "chdir p s =
     (let s1 = s\<lparr>c_cwd := Some p\<rparr> in
      case is_open s1 of
        (True, s2) \<Rightarrow> session_chdir p s2
      | (False, s2) \<Rightarrow> (Inr (), s2))"

text \<open>
  Modelled from the spec: the scope \<open>with Path(p, self):\<close> of the attila library (not part
  of this repository). The spec describes it as setting the working directory to the
  path before the primitive on the bare name is invoked.
\<close>

definition with_path :: "path \<Rightarrow> 'a io \<Rightarrow> 'a io" where
  "with_path p body = bind (chdir p) (\<lambda>u. body)"

section \<open>The filesystem adapter\<close>

definition download :: "path \<Rightarrow> local_path \<Rightarrow> unit io" where
  "download remote_path local_path =
     bind assert_open (\<lambda>u.
       case split_path remote_path of
         (dir_path, file_name) \<Rightarrow> with_path dir_path (session_get file_name local_path))"


definition size_sftp :: "path \<Rightarrow> nat io" where
  "size_sftp p =
     bind assert_open (\<lambda>u. bind (session_stat (StrArg p)) (\<lambda>a. return (st_size a)))"

definition modified_time :: "path \<Rightarrow> nat io" where
  "modified_time p =
     bind assert_open (\<lambda>u. bind (session_stat (PathArg p)) (\<lambda>a. return (st_mtime a)))"

definition is_dir :: "path \<Rightarrow> bool io" where
  "is_dir p =
     bind assert_open (\<lambda>u. succeeds (with_path p (bind session_listdir (\<lambda>l. return ()))))"

definition is_file :: "path \<Rightarrow> bool io" where
  "is_file p = bind assert_open (\<lambda>u. succeeds (size_sftp p))"

text \<open>
  Modelled from the spec: \<open>fs_connection.exists\<close> of the attila library (not part of this
  repository), the directory-or-file existence check.
\<close>

definition exists :: "path \<Rightarrow> bool io" where
  "exists p = bind (is_dir p) (\<lambda>d. if d then return True else is_file p)"

text \<open>
  Modelled from the spec: \<open>strings.glob_to_regex\<close> of the attila library (not part of this
  repository), as the match of a name against a glob pattern in which \<open>*\<close> stands for any
  run of characters.
\<close>

fun glob_to_regex :: "string \<Rightarrow> string \<Rightarrow> bool" where
  "glob_to_regex [] n = (n = [])"
| "glob_to_regex (c # cs) n =
     (if c = CHR ''*'' then list_ex (\<lambda>k. glob_to_regex cs (drop k n)) [0..<Suc (length n)]
      else (case n of [] \<Rightarrow> False | x # xs \<Rightarrow> x = c \<and> glob_to_regex cs xs))"

text \<open>The comprehension \<open>[name for name in listing if self.exists(path[name])]\<close>.\<close>

fun existing :: "path \<Rightarrow> string list \<Rightarrow> string list io" where
  "existing p [] = return []"
| "existing p (n # ns) =
     bind (exists (p @ [n])) (\<lambda>e. bind (existing p ns) (\<lambda>r. return (if e then n # r else r)))"

definition list_sftp :: "path \<Rightarrow> string \<Rightarrow> string list io" where
  "list_sftp p pattern =
     bind assert_open (\<lambda>u.
     bind (with_path p (bind session_listdir (\<lambda>listing. existing p listing))) (\<lambda>listing.
       if pattern = ''*'' then return listing
       else return (filter (glob_to_regex pattern) listing)))"

text \<open>
  Modelled from the spec: \<open>fs_connection.glob\<close> of the attila library (not part of this
  repository), the children of a directory as paths: its listing, each name joined to
  the directory.
\<close>

definition glob :: "path \<Rightarrow> path list io" where
  "glob p = bind (list_sftp p ''*'') (\<lambda>names. return (map (\<lambda>n. p @ [n]) names))"

definition remove :: "path \<Rightarrow> unit io" where
  "remove p =
     bind assert_open (\<lambda>u.
     bind (is_dir p) (\<lambda>d.
       if d then
         (case split_path p of (dir_path, dir_name) \<Rightarrow> with_path dir_path (session_rmdir dir_name))
       else
         (case split_path p of (dir_path, file_name) \<Rightarrow> with_path dir_path (session_remove file_name))))"

text \<open>The loop \<open>for child in children: child.remove()\<close>.\<close>

fun remove_children :: "path list \<Rightarrow> unit io" where
  "remove_children [] = return ()"
| "remove_children (child # rest) = bind (remove child) (\<lambda>u. remove_children rest)"

text \<open>
  \<open>sftp_connection.make_dir\<close>. \<open>check_only\<close> is \<open>None\<close>, \<open>True\<close> or \<open>False\<close>. The call on
  the parent goes through \<open>Path.make_dir\<close>, which hands its arguments back to this
  function. The root is its own parent: a call that reaches itself with the same
  arguments recurses until the interpreter raises \<open>RecursionError\<close>.
\<close>

function make_dir :: "path \<Rightarrow> bool \<Rightarrow> bool \<Rightarrow> bool \<Rightarrow> bool option \<Rightarrow> unit io" where
  "make_dir p overwrite clear fill check_only =
     (case check_only of
        None \<Rightarrow>
          bind (make_dir p overwrite clear fill (Some True)) (\<lambda>u.
            make_dir p overwrite clear fill (Some False))
      | Some chk \<Rightarrow>
          bind (is_dir p) (\<lambda>d.
            if d then
              (if clear then
                 bind (glob p) (\<lambda>children.
                   if children \<noteq> [] then
                     (if \<not> overwrite then raise (DirectoryNotEmptyError p)
                      else if \<not> chk then remove_children children
                      else return ())
                   else return ())
               else return ())
            else
              bind (exists p) (\<lambda>e.
                if e then
                  (if \<not> overwrite then raise (FileExistsError p)
                   else if \<not> chk then bind (remove p) (\<lambda>u. session_mkdir p)
                   else return ())
                else
                  bind
                    (bind (is_dir (dir p)) (\<lambda>pd.
                       if \<not> pd then
                         (if \<not> fill then raise (NotADirectoryError (dir p))
                          else if dir p = p then raise RecursionError
                          else make_dir (dir p) overwrite False True (Some chk))
                       else return ()))
                    (\<lambda>u. if \<not> chk then session_mkdir p else return ()))))"
  by pat_completeness auto
termination
  apply (relation "measures [\<lambda>(p, ov, cl, fi, chk). length p,
                             \<lambda>(p, ov, cl, fi, chk). (if chk = None then 1 else 0)]")
     apply (auto simp: dir_def split_path_def)
  subgoal for p by (cases p) auto
  done

declare make_dir.simps [simp del]

definition rename :: "path \<Rightarrow> string \<Rightarrow> unit io" where
  "rename p new_name =
     bind assert_open (\<lambda>u.
       if new_name = [] then raise AssertionError
       else
         (case split_path p of
            (dir_path, file_name) \<Rightarrow>
              if file_name \<noteq> new_name
              then with_path dir_path (session_rename file_name new_name)
              else return ()))"

subsection \<open>Proxy files\<close>

text \<open>\<open>str.lower\<close> on the letters a mode string is made of.\<close>

definition lower_char :: "char \<Rightarrow> char" where
  "lower_char c =
     (let n = (of_char c :: nat) in if 65 \<le> n \<and> n \<le> 90 then char_of (n + 32) else c)"

definition lower :: "string \<Rightarrow> string" where
  "lower m = map lower_char m"

text \<open>The write-back action of a proxy file; the adapter only ever binds \<open>self._upload\<close>.\<close>

datatype writeback = Upload

record proxy_file =
  pf_path :: path
  pf_mode :: string
  pf_proxy_path :: local_path
  pf_writeback :: "writeback option"

text \<open>
  Modelled from the spec: \<open>get_temp_file_path\<close> of the local staging filesystem (attila
  library, not part of this repository): a uniquely named temporary file whose name is
  derived from the hint.
\<close>

definition get_temp_file_path :: "string \<Rightarrow> local_path io" where
  "get_temp_file_path hint s = (Inr (hint, temp_count s), s\<lparr>temp_count := Suc (temp_count s)\<rparr>)"

definition open_file :: "path \<Rightarrow> string \<Rightarrow> proxy_file io" where
  "open_file p mode0 =
     bind assert_open (\<lambda>u.
       let mode = lower mode0 in
       bind (get_temp_file_path (name p)) (\<lambda>temp_path.
       bind (if mode \<notin> set [''w'', ''wb''] then download p temp_path else return ()) (\<lambda>u.
         return \<lparr>pf_path = p, pf_mode = mode, pf_proxy_path = temp_path,
                 pf_writeback = (if mode \<in> set [''r'', ''rb''] then None else Some Upload)\<rparr>)))"




section \<open>Observations on a run\<close>

text \<open>The protocol calls that change the remote store.\<close>

fun is_mutating :: "call \<Rightarrow> bool" where
  "is_mutating (Mkdir p) = True"
| "is_mutating (Rmdir n) = True"
| "is_mutating (Remove n) = True"
| "is_mutating (Rename a b) = True"
| "is_mutating (Put l n) = True"
| "is_mutating c = False"

definition mutations :: "call list \<Rightarrow> call list" where
  "mutations cs = filter is_mutating cs"

text \<open>A connection that is open, on a session whose working directory is a directory.\<close>

definition live :: "conn \<Rightarrow> bool" where
  "live s = (c_is_open s \<and>
     (case c_session s of None \<Rightarrow> False | Some cwd \<Rightarrow> lookup (remote s) cwd = Some Dir))"

text \<open>Sample connections: one never opened, one open at the root of a small tree.\<close>

definition unopened :: conn where
  "unopened = \<lparr>c_is_open = False, c_session = None, c_cwd = None, remote = [], stale = [],
     clock = 0, staging = [], temp_count = 0, calls = []\<rparr>"

definition sample :: conn where
  "sample = \<lparr>c_is_open = True, c_session = Some [], c_cwd = Some [],
     remote = [([''d''], Dir), ([''d'', ''f''], File ''hello'' 7), ([''d'', ''sub''], Dir),
               ([''d'', ''sub'', ''g''], File ''x'' 3), ([''e''], Dir), ([''t''], File ''abc'' 5)],
     stale = [([''e''], ''ghost'')],
     clock = 9, staging = [], temp_count = 0, calls = []\<rparr>"

text \<open>
  What a run that does not touch the remote store leaves behind: the same tree, the same
  stale names, no further mutating call, and a live connection still live.
\<close>

definition frame :: "conn \<Rightarrow> conn \<Rightarrow> bool" where
  "frame s s' = (remote s' = remote s \<and> stale s' = stale s
     \<and> mutations (calls s') = mutations (calls s) \<and> (live s \<longrightarrow> live s'))"

definition quiet :: "'a io \<Rightarrow> bool" where
  "quiet m = (\<forall>s. frame s (snd (m s)))"

text \<open>The raw protocol listing of directory \<open>d\<close>, as \<open>session_listdir\<close> reports it there.\<close>

definition raw_listing :: "conn \<Rightarrow> path \<Rightarrow> string list" where
  "raw_listing s d = children (remote s) d @ map snd (filter (\<lambda>(d', n). d' = d) (stale s))"

text \<open>
  A well-formed remote tree: every entry has a non-empty path of non-empty segments, and
  its parent is a directory.
\<close>

definition tree_ok :: "(path \<times> node) list \<Rightarrow> bool" where
  "tree_ok fs = list_all (\<lambda>(q, n). q \<noteq> [] \<and> [] \<notin> set q \<and> lookup fs (butlast q) = Some Dir) fs"





text \<open>
  Vocabulary for the clearing of a directory: the children \<open>glob\<close> reports for \<open>d\<close> (the
  names of the raw listing that pass the existence check, joined to \<open>d\<close>); whether the
  adapter's \<open>remove\<close> succeeds on a path, which it does on a file and on an empty directory
  only; and the one protocol call \<open>remove\<close> issues for it.
\<close>

definition removable :: "(path \<times> node) list \<Rightarrow> path \<Rightarrow> bool" where
  "removable fs c =
     (case lookup fs c of None \<Rightarrow> False | Some Dir \<Rightarrow> children fs c = [] | Some (File x m) \<Rightarrow> True)"

definition removal :: "(path \<times> node) list \<Rightarrow> path \<Rightarrow> call" where
  "removal fs c = (if lookup fs c = Some Dir then Rmdir (last c) else Remove (last c))"

definition listed :: "conn \<Rightarrow> path \<Rightarrow> path list" where
  "listed s d =
     map (\<lambda>n. d @ [n]) (filter (\<lambda>n. lookup (remote s) (d @ [n]) \<noteq> None) (raw_listing s d))"

section \<open>Unopened sessions\<close>

lemma bind_Inl: "m s = (Inl e, s') \<Longrightarrow> bind m f s = (Inl e, s')"
  by (simp add: bind_def)


lemma assert_open_unopened: "\<not> c_is_open s \<Longrightarrow> assert_open s = (Inl AssertionError, s)"
  by (simp add: assert_open_def is_open_def)

lemma is_dir_unopened: "\<not> c_is_open s \<Longrightarrow> is_dir p s = (Inl AssertionError, s)"
  by (simp add: is_dir_def bind_Inl assert_open_unopened)

lemma make_dir_unopened:
  assumes "\<not> c_is_open s"
  shows "make_dir p ov cl fi chk s = (Inl AssertionError, s)"
proof -
  have some: "make_dir p ov cl fi (Some c) s = (Inl AssertionError, s)" for c
    by (subst make_dir.simps) (simp add: bind_Inl is_dir_unopened assms)
  show ?thesis
  proof (cases chk)
    case None
    then show ?thesis
      by (subst make_dir.simps) (simp add: bind_Inl some)
  next
    case (Some c)
    then show ?thesis by (simp add: some)
  qed
qed

text \<open>
  C8: every adapter operation invoked on an unopened session fails at once with the
  assertion's usage error; the connection is left exactly as it was, so no protocol call
  has been issued.
\<close>

theorem unopened_session_is_usage_error:
  assumes "\<not> c_is_open s"
  shows "list_sftp p pat s = (Inl AssertionError, s)
       \<and> size_sftp p s = (Inl AssertionError, s)
       \<and> modified_time p s = (Inl AssertionError, s)
       \<and> remove p s = (Inl AssertionError, s)
       \<and> rename p n s = (Inl AssertionError, s)
       \<and> is_dir p s = (Inl AssertionError, s)
       \<and> is_file p s = (Inl AssertionError, s)
       \<and> open_file p m s = (Inl AssertionError, s)
       \<and> make_dir p ov cl fi chk s = (Inl AssertionError, s)"
  using assms
  by (simp add: list_sftp_def size_sftp_def modified_time_def remove_def rename_def
      is_file_def open_file_def bind_Inl assert_open_unopened is_dir_unopened make_dir_unopened)

theorem unopened_session_witness:
  "\<not> c_is_open unopened
   \<and> remove [''d''] unopened = (Inl AssertionError, unopened)
   \<and> make_dir [''d''] False False True None unopened = (Inl AssertionError, unopened)
   \<and> calls unopened = []"
  using unopened_session_is_usage_error [of unopened "[''d'']" "''*''" "''n''" "''r''" False False True None]
  by (simp add: unopened_def)

section \<open>Runs that leave the remote store alone\<close>

lemma frame_refl: "frame s s"
  by (simp add: frame_def)

lemma frame_trans: "frame s s1 \<Longrightarrow> frame s1 s2 \<Longrightarrow> frame s s2"
  by (simp add: frame_def)

lemma quietD: "quiet m \<Longrightarrow> m s = (r, s') \<Longrightarrow> frame s s'"
  by (auto simp: quiet_def dest: spec [of _ s])

lemma quiet_return: "quiet (return x)"
  by (simp add: quiet_def return_def frame_refl)

lemma quiet_raise: "quiet (raise e)"
  by (simp add: quiet_def raise_def frame_refl)

lemma quiet_bind:
  assumes "quiet m" and "\<And>x. quiet (f x)"
  shows "quiet (bind m f)"
  unfolding quiet_def
proof
  fix s
  obtain r s1 where m: "m s = (r, s1)" by (cases "m s")
  have f1: "frame s s1" using assms(1) m by (rule quietD)
  show "frame s (snd (bind m f s))"
  proof (cases r)
    case (Inl e)
    then show ?thesis using m f1 by (simp add: bind_def)
  next
    case (Inr x)
    obtain r2 s2 where fx: "f x s1 = (r2, s2)" by (cases "f x s1")
    have "frame s1 s2" using assms(2) fx by (rule quietD)
    then show ?thesis using Inr m fx f1 by (simp add: bind_def frame_trans)
  qed
qed

lemma quiet_succeeds:
  assumes "quiet m"
  shows "quiet (succeeds m)"
  unfolding quiet_def
proof
  fix s
  obtain r s1 where m: "m s = (r, s1)" by (cases "m s")
  have "frame s s1" using assms m by (rule quietD)
  then show "frame s (snd (succeeds m s))"
    by (cases r) (simp_all add: succeeds_def m)
qed

lemma quiet_if: "quiet a \<Longrightarrow> quiet b \<Longrightarrow> quiet (if c then a else b)"
  by simp

lemma mutations_snoc: "mutations (cs @ [c]) = (if is_mutating c then mutations cs @ [c] else mutations cs)"
  by (simp add: mutations_def)

lemma quiet_session_listdir: "quiet session_listdir"
  by (auto simp: quiet_def frame_def session_listdir_def log_call_def live_def mutations_snoc Let_def
      split: option.splits)

lemma quiet_session_chdir: "quiet (session_chdir p)"
  by (auto simp: quiet_def frame_def session_chdir_def log_call_def live_def mutations_snoc Let_def
      split: option.splits)

lemma quiet_session_stat: "quiet (session_stat a)"
  by (auto simp: quiet_def frame_def session_stat_def log_call_def live_def mutations_snoc Let_def
      split: option.splits stat_arg.splits node.splits)

lemma frame_is_open: "frame s (snd (is_open s))"
  by (auto simp: frame_def is_open_def close_def session_close_def session_listdir_def log_call_def
      live_def mutations_def Let_def split: option.splits)

lemma is_open_live: "live s \<Longrightarrow> fst (is_open s)"
  by (auto simp: is_open_def session_listdir_def log_call_def live_def Let_def split: option.splits)

lemma quiet_assert_open: "quiet assert_open"
  unfolding quiet_def
proof
  fix s
  show "frame s (snd (assert_open s))"
    using frame_is_open [of s] by (cases "is_open s") (auto simp: assert_open_def split: bool.splits)
qed

lemma quiet_chdir: "quiet (chdir p)"
  unfolding quiet_def
proof
  fix s :: conn
  let ?s1 = "s\<lparr>c_cwd := Some p\<rparr>"
  have a: "frame s ?s1" by (simp add: frame_def live_def split: option.splits)
  obtain b s2 where o: "is_open ?s1 = (b, s2)" by (cases "is_open ?s1")
  have b: "frame ?s1 s2" using frame_is_open [of ?s1] o by simp
  show "frame s (snd (chdir p s))"
  proof (cases b)
    case True
    obtain r s3 where c: "session_chdir p s2 = (r, s3)" by (cases "session_chdir p s2")
    have "frame s2 s3" using quiet_session_chdir c by (rule quietD)
    then show ?thesis using True o c a b by (auto simp: chdir_def Let_def intro: frame_trans)
  next
    case False
    then show ?thesis using o a b by (auto simp: chdir_def Let_def intro: frame_trans)
  qed
qed

lemma quiet_with_path: "quiet body \<Longrightarrow> quiet (with_path p body)"
  by (simp add: with_path_def quiet_bind quiet_chdir)

lemma quiet_size_sftp: "quiet (size_sftp p)"
  by (simp add: size_sftp_def quiet_bind quiet_assert_open quiet_session_stat quiet_return)

lemma quiet_is_dir: "quiet (is_dir p)"
  by (simp add: is_dir_def quiet_bind quiet_assert_open quiet_succeeds quiet_with_path
      quiet_session_listdir quiet_return)

lemma quiet_is_file: "quiet (is_file p)"
  by (simp add: is_file_def quiet_bind quiet_assert_open quiet_succeeds quiet_size_sftp)

lemma quiet_exists: "quiet (exists p)"
  by (simp add: exists_def quiet_bind quiet_is_dir quiet_is_file quiet_return)

lemma quiet_existing: "quiet (existing p ns)"
  by (induction ns) (simp_all add: quiet_bind quiet_exists quiet_return)

lemma quiet_list_sftp: "quiet (list_sftp p pat)"
  by (simp add: list_sftp_def quiet_bind quiet_assert_open quiet_with_path quiet_session_listdir
      quiet_existing quiet_return)

lemma quiet_glob: "quiet (glob p)"
  by (simp add: glob_def quiet_bind quiet_list_sftp quiet_return)

lemma quiet_make_dir_check: "quiet (make_dir p ov cl fi (Some True))"
proof (induction p arbitrary: cl fi rule: rev_induct)
  case Nil
  show ?case
    by (subst make_dir.simps)
       (simp add: dir_def split_path_def quiet_bind quiet_is_dir quiet_glob quiet_exists
          quiet_return quiet_raise)
next
  case (snoc x xs)
  show ?case
    by (subst make_dir.simps)
       (simp add: dir_def split_path_def quiet_bind quiet_is_dir quiet_glob quiet_exists
          quiet_return quiet_raise snoc)
qed

lemma make_dir_None:
  "make_dir p ov cl fi None s =
     (case make_dir p ov cl fi (Some True) s of
        (Inl e, s1) \<Rightarrow> (Inl e, s1)
      | (Inr u, s1) \<Rightarrow> make_dir p ov cl fi (Some False) s1)"
  by (subst make_dir.simps) (simp add: bind_def)




lemma bind_run:
  "bind m f s = (case fst (m s) of Inl e \<Rightarrow> (Inl e, snd (m s)) | Inr x \<Rightarrow> f x (snd (m s)))"
  by (cases "m s") (auto simp: bind_def split: sum.splits)

lemma after_quiet:
  "quiet m \<Longrightarrow> live s \<Longrightarrow>
     live (snd (m s)) \<and> remote (snd (m s)) = remote s \<and> stale (snd (m s)) = stale s"
  by (simp add: quiet_def frame_def)

lemma log_call_simps [simp]:
  "c_is_open (log_call c s) = c_is_open s"
  "c_session (log_call c s) = c_session s"
  "remote (log_call c s) = remote s"
  "stale (log_call c s) = stale s"
  "staging (log_call c s) = staging s"
  "temp_count (log_call c s) = temp_count s"
  "clock (log_call c s) = clock s"
  "calls (log_call c s) = calls s @ [c]"
  "live (log_call c s) = live s"
  by (simp_all add: log_call_def live_def split: option.splits)

lemma live_cwd [simp]: "live (s\<lparr>c_cwd := x\<rparr>) = live s"
  by (simp add: live_def split: option.splits)

lemma live_session: "live s \<Longrightarrow> \<exists>d. c_session s = Some d \<and> lookup (remote s) d = Some Dir"
  by (auto simp: live_def split: option.splits)

lemma succeeds_run:
  "succeeds m s = (Inr (case fst (m s) of Inl e \<Rightarrow> False | Inr x \<Rightarrow> True), snd (m s))"
  by (cases "m s") (auto simp: succeeds_def split: sum.splits)

lemma is_open_live_eq: "live s \<Longrightarrow> is_open s = (True, log_call Listdir s)"
  by (auto simp: is_open_def session_listdir_def live_def Let_def split: option.splits)

lemma assert_open_live: "live s \<Longrightarrow> assert_open s = (Inr (), log_call Listdir s)"
  by (simp add: assert_open_def is_open_live_eq)

lemma chdir_live:
  assumes "live s"
  shows "chdir p s =
    (if lookup (remote s) p = Some Dir
     then (Inr (), (log_call (Chdir p) (log_call Listdir (s\<lparr>c_cwd := Some p\<rparr>)))\<lparr>c_session := Some p\<rparr>)
     else (Inl IOError, log_call (Chdir p) (log_call Listdir (s\<lparr>c_cwd := Some p\<rparr>))))"
proof -
  have "live (s\<lparr>c_cwd := Some p\<rparr>)" using assms by simp
  then have o: "is_open (s\<lparr>c_cwd := Some p\<rparr>) = (True, log_call Listdir (s\<lparr>c_cwd := Some p\<rparr>))"
    by (rule is_open_live_eq)
  have "c_session s \<noteq> None" using live_session [OF assms] by auto
  then show ?thesis
    by (auto simp: chdir_def o session_chdir_def Let_def)
qed

lemma session_listdir_at:
  "c_session s = Some d \<Longrightarrow> lookup (remote s) d = Some Dir \<Longrightarrow>
   session_listdir s =
     (Inr (children (remote s) d @ map snd (filter (\<lambda>(d', n). d' = d) (stale s))), log_call Listdir s)"
  by (simp add: session_listdir_def Let_def)

lemma is_dir_live: "live s \<Longrightarrow> fst (is_dir p s) = Inr (lookup (remote s) p = Some Dir)"
  by (simp add: is_dir_def bind_run assert_open_live with_path_def chdir_live succeeds_run
      session_listdir_at return_def)

lemma size_sftp_live:
  "live s \<Longrightarrow> fst (size_sftp p s) =
     (case lookup (remote s) p of None \<Rightarrow> Inl IOError | Some Dir \<Rightarrow> Inr 0
      | Some (File c m) \<Rightarrow> Inr (length c))"
  by (auto simp: size_sftp_def bind_run assert_open_live session_stat_def Let_def return_def live_def
      split: option.splits node.splits)

lemma is_file_live: "live s \<Longrightarrow> fst (is_file p s) = Inr (lookup (remote s) p \<noteq> None)"
  by (auto simp: is_file_def bind_run assert_open_live succeeds_run size_sftp_live
      split: option.splits node.splits)

lemma exists_live:
  assumes "live s"
  shows "fst (exists p s) = Inr (lookup (remote s) p \<noteq> None)"
  using assms after_quiet [OF quiet_is_dir assms, of p]
  by (auto simp: exists_def bind_run is_dir_live is_file_live return_def)

lemma existing_live:
  "live s \<Longrightarrow> fst (existing p ns s) = Inr (filter (\<lambda>n. lookup (remote s) (p @ [n]) \<noteq> None) ns)"
proof (induction ns arbitrary: s)
  case Nil
  then show ?case by (simp add: return_def)
next
  case (Cons n ns)
  let ?s1 = "snd (exists (p @ [n]) s)"
  have s1: "live ?s1 \<and> remote ?s1 = remote s"
    using after_quiet [OF quiet_exists Cons.prems, of "p @ [n]"] by simp
  then have "fst (existing p ns ?s1) = Inr (filter (\<lambda>n. lookup (remote s) (p @ [n]) \<noteq> None) ns)"
    using Cons.IH [of ?s1] by simp
  then show ?case
    using Cons.prems by (simp add: bind_run exists_live return_def)
qed

lemma list_sftp_live:
  assumes "live s" and "lookup (remote s) p = Some Dir"
  shows "fst (list_sftp p pat s) =
     Inr (filter (\<lambda>n. pat = ''*'' \<or> glob_to_regex pat n)
            (filter (\<lambda>n. lookup (remote s) (p @ [n]) \<noteq> None) (raw_listing s p)))"
proof -
  let ?s1 = "log_call Listdir s"
  let ?s2 = "(log_call (Chdir p) (log_call Listdir (?s1\<lparr>c_cwd := Some p\<rparr>)))\<lparr>c_session := Some p\<rparr>"
  have l1: "live ?s1" using assms by simp
  have c: "chdir p ?s1 = (Inr (), ?s2)" using l1 assms(2) by (simp add: chdir_live)
  have l2: "live ?s2" using assms by (simp add: live_def)
  have ls: "session_listdir ?s2 = (Inr (raw_listing s p), log_call Listdir ?s2)"
    using assms(2) by (simp add: session_listdir_at raw_listing_def)
  have l3: "live (log_call Listdir ?s2)" using l2 by simp
  have ex: "fst (existing p (raw_listing s p) (log_call Listdir ?s2)) =
      Inr (filter (\<lambda>n. lookup (remote s) (p @ [n]) \<noteq> None) (raw_listing s p))"
    using existing_live [OF l3, of p "raw_listing s p"] by simp
  show ?thesis
    using assms(1) ex
    by (simp add: list_sftp_def bind_run assert_open_live with_path_def c ls return_def)
qed


lemma is_open_True: "fst (is_open s) \<Longrightarrow> is_open s = (True, log_call Listdir s)"
  by (auto simp: is_open_def session_listdir_def close_def session_close_def Let_def
      split: option.splits if_splits)

lemma assert_open_True: "fst (is_open s) \<Longrightarrow> assert_open s = (Inr (), log_call Listdir s)"
  by (simp add: assert_open_def is_open_True)

text \<open>
  C5: on a session that passes the open check, \<open>is_dir\<close> returns \<open>True\<close> exactly when
  setting the working directory to the path and listing it both succeed, \<open>is_file\<close>
  returns \<open>True\<close> exactly when the size stat succeeds, and both return \<open>False\<close> otherwise:
  neither ever raises.
\<close>

theorem probes_collapse_failures:
  assumes "fst (is_open s)"
  shows "fst (is_dir p s) =
           Inr (\<exists>s2 l s3. chdir p (snd (is_open s)) = (Inr (), s2) \<and> session_listdir s2 = (Inr l, s3))
       \<and> fst (is_file p s) = Inr (\<exists>n s2. size_sftp p (snd (is_open s)) = (Inr n, s2))"
proof -
  let ?s1 = "log_call Listdir s"
  have o: "snd (is_open s) = ?s1" using assms by (simp add: is_open_True)
  have a: "assert_open s = (Inr (), ?s1)" using assms by (rule assert_open_True)
  have d: "fst (is_dir p s) =
      Inr (\<exists>s2 l s3. chdir p ?s1 = (Inr (), s2) \<and> session_listdir s2 = (Inr l, s3))"
  proof (cases "chdir p ?s1")
    case (Pair r s2)
    show ?thesis
    proof (cases r)
      case (Inl e)
      then show ?thesis using Pair a
        by (simp add: is_dir_def bind_def succeeds_def with_path_def)
    next
      case (Inr u)
      obtain r3 s3 where l: "session_listdir s2 = (r3, s3)" by (cases "session_listdir s2")
      show ?thesis using Pair a Inr l
        by (cases r3) (simp_all add: is_dir_def bind_def succeeds_def with_path_def return_def)
    qed
  qed
  have f: "fst (is_file p s) = Inr (\<exists>n s2. size_sftp p ?s1 = (Inr n, s2))"
  proof (cases "size_sftp p ?s1")
    case (Pair r s2)
    then show ?thesis using a
      by (cases r) (simp_all add: is_file_def bind_def succeeds_def)
  qed
  show ?thesis using d f o by simp
qed

theorem probes_collapse_failures_witness:
  "fst (is_open sample)
   \<and> fst (is_dir [''t''] sample) =
       Inr (\<exists>s2 l s3. chdir [''t''] (snd (is_open sample)) = (Inr (), s2)
              \<and> session_listdir s2 = (Inr l, s3))
   \<and> fst (is_dir [''t''] sample) = Inr False
   \<and> fst (is_dir [''d''] sample) = Inr True
   \<and> fst (is_file [''nope''] sample) = Inr False"
proof -
  have h: "fst (is_open sample)" by code_simp
  have v: "fst (is_dir [''t''] sample) = Inr False" "fst (is_dir [''d''] sample) = Inr True"
    "fst (is_file [''nope''] sample) = Inr False"
    by code_simp+
  show ?thesis using h v probes_collapse_failures [OF h, of "[''t'']"] by simp
qed

text \<open>
  C6: \<open>list\<close> on a directory returns the names of the raw listing that pass the
  existence check, filtered by the glob match when the pattern is not \<open>*\<close>; a name for
  which both \<open>is_dir\<close> and \<open>is_file\<close> are false is never returned, even though the raw
  listing reported it.
\<close>

theorem list_keeps_only_existing_names:
  assumes "live s" and "lookup (remote s) p = Some Dir"
  shows "\<exists>names. fst (list_sftp p pat s) = Inr names
     \<and> names = filter (\<lambda>n. pat = ''*'' \<or> glob_to_regex pat n)
                 (filter (\<lambda>n. lookup (remote s) (p @ [n]) \<noteq> None) (raw_listing s p))
     \<and> set names \<subseteq> set (raw_listing s p)
     \<and> (\<forall>n \<in> set names. fst (is_dir (p @ [n]) s) = Inr True \<or> fst (is_file (p @ [n]) s) = Inr True)
     \<and> (\<forall>n. fst (is_dir (p @ [n]) s) = Inr False \<and> fst (is_file (p @ [n]) s) = Inr False
            \<longrightarrow> n \<notin> set names)
     \<and> (pat \<noteq> ''*'' \<longrightarrow> (\<forall>n \<in> set names. glob_to_regex pat n))"
  using assms by (auto simp: list_sftp_live is_dir_live is_file_live)

theorem list_keeps_only_existing_names_witness:
  "live sample \<and> lookup (remote sample) [''e''] = Some Dir
   \<and> raw_listing sample [''e''] = [''ghost'']
   \<and> fst (list_sftp [''e''] ''*'' sample) = Inr []
   \<and> fst (list_sftp [''d''] ''s*'' sample) = Inr [''sub'']"
proof -
  have h: "live sample" "lookup (remote sample) [''e''] = Some Dir" by code_simp+
  have v: "raw_listing sample [''e''] = [''ghost'']"
    "fst (list_sftp [''d''] ''s*'' sample) = Inr [''sub'']" by code_simp+
  have "lookup (remote sample) [''e'', ''ghost''] = None" by code_simp
  then show ?thesis
    using h v list_keeps_only_existing_names [OF h, of "''*''"] by auto
qed

text \<open>
  C9: \<open>size\<close> hands the checked path string to the session's \<open>stat\<close>, while
  \<open>modified_time\<close> hands it a \<open>Path\<close> object built from that string: on the sample file
  the first returns the size and the second fails in \<open>stat\<close>.
\<close>

theorem modified_time_passes_path_object:
  "fst (size_sftp [''t''] sample) = Inr 3
   \<and> calls (snd (size_sftp [''t''] sample)) = [Listdir, Stat (StrArg [''t''])]
   \<and> fst (modified_time [''t''] sample) = Inl TypeError
   \<and> calls (snd (modified_time [''t''] sample)) = [Listdir, Stat (PathArg [''t''])]"
  by code_simp

lemma is_open_fst_live: "fst (is_open s) \<Longrightarrow> live s"
  by (auto simp: is_open_def session_listdir_def close_def session_close_def live_def Let_def
      split: option.splits if_splits)

lemma session_rename_calls: "calls (snd (session_rename a b t)) = calls t @ [Rename a b]"
  by (auto simp: session_rename_def Let_def split: option.splits)

lemma rename_empty_name:
  "fst (is_open s) \<Longrightarrow> rename p [] s = (Inl AssertionError, log_call Listdir s)"
  by (simp add: rename_def bind_def assert_open_True raise_def)

text \<open>
  C10: the code asserts that the session is open and that the new name is a non-empty
  string (line 473); an empty one raises the assertion error before anything is requested
  (\<open>rename_empty_name\<close>). Under these asserted preconditions, renaming a path to its own
  final name only runs the open check: no rename is requested and nothing is raised. When
  the names differ and the parent is a directory, the session's working directory is the
  parent at the moment the rename of the bare old name to the new one is requested, and
  the change of directory is the protocol call just before it. When the parent is not a
  directory the change of directory fails and no rename is requested.
\<close>

theorem rename_same_name_is_noop:
  assumes "fst (is_open s)" and "new_name \<noteq> []"
  shows "(name p = new_name \<longrightarrow> rename p new_name s = (Inr (), log_call Listdir s))
       \<and> (name p \<noteq> new_name \<and> lookup (remote s) (dir p) = Some Dir \<longrightarrow>
            (\<exists>s2. c_session s2 = Some (dir p) \<and> remote s2 = remote s
               \<and> calls s2 = calls s @ [Listdir, Listdir, Chdir (dir p)]
               \<and> rename p new_name s = session_rename (name p) new_name s2
               \<and> calls (snd (rename p new_name s)) =
                   calls s @ [Listdir, Listdir, Chdir (dir p), Rename (name p) new_name]))
       \<and> (name p \<noteq> new_name \<and> lookup (remote s) (dir p) \<noteq> Some Dir \<longrightarrow>
            fst (rename p new_name s) = Inl IOError
            \<and> remote (snd (rename p new_name s)) = remote s
            \<and> calls (snd (rename p new_name s)) = calls s @ [Listdir, Listdir, Chdir (dir p)])"
proof -
  let ?s1 = "log_call Listdir s"
  let ?s2 = "log_call (Chdir (dir p)) (log_call Listdir (?s1\<lparr>c_cwd := Some (dir p)\<rparr>))"
  have l1: "live ?s1" using is_open_fst_live [OF assms(1)] by simp
  have same: "name p = new_name \<longrightarrow> rename p new_name s = (Inr (), ?s1)"
    using assms
    by (simp add: rename_def bind_def assert_open_True split_path_def name_def return_def)
  have run: "rename p new_name s = bind (chdir (dir p)) (\<lambda>u. session_rename (name p) new_name) ?s1"
    if "name p \<noteq> new_name"
    using assms that
    by (simp add: rename_def bind_def assert_open_True split_path_def name_def dir_def
        with_path_def)
  have ok: "\<exists>s2. c_session s2 = Some (dir p) \<and> remote s2 = remote s
               \<and> calls s2 = calls s @ [Listdir, Listdir, Chdir (dir p)]
               \<and> rename p new_name s = session_rename (name p) new_name s2
               \<and> calls (snd (rename p new_name s)) =
                   calls s @ [Listdir, Listdir, Chdir (dir p), Rename (name p) new_name]"
    if "name p \<noteq> new_name" "lookup (remote s) (dir p) = Some Dir"
  proof -
    have c: "chdir (dir p) ?s1 = (Inr (), ?s2\<lparr>c_session := Some (dir p)\<rparr>)"
      using l1 that(2) by (simp add: chdir_live)
    have r: "rename p new_name s = session_rename (name p) new_name (?s2\<lparr>c_session := Some (dir p)\<rparr>)"
      using run [OF that(1)] c by (simp add: bind_def)
    show ?thesis
      by (rule exI [of _ "?s2\<lparr>c_session := Some (dir p)\<rparr>"])
         (simp add: r session_rename_calls)
  qed
  have bad: "fst (rename p new_name s) = Inl IOError
            \<and> remote (snd (rename p new_name s)) = remote s
            \<and> calls (snd (rename p new_name s)) = calls s @ [Listdir, Listdir, Chdir (dir p)]"
    if "name p \<noteq> new_name" "lookup (remote s) (dir p) \<noteq> Some Dir"
  proof -
    have c: "chdir (dir p) ?s1 = (Inl IOError, ?s2)"
      using l1 that(2) by (simp add: chdir_live)
    show ?thesis using run [OF that(1)] c by (simp add: bind_def)
  qed
  show ?thesis using same ok bad by blast
qed

theorem rename_same_name_is_noop_witness:
  "fst (is_open sample) \<and> ''f'' \<noteq> []
   \<and> rename [''d'', ''f''] ''f'' sample = (Inr (), log_call Listdir sample)
   \<and> calls (snd (rename [''d'', ''f''] ''f'' sample)) = [Listdir]
   \<and> calls (snd (rename [''d'', ''f''] ''g'' sample))
       = [Listdir, Listdir, Chdir [''d''], Rename ''f'' ''g'']
   \<and> lookup (remote (snd (rename [''d'', ''f''] ''g'' sample))) [''d'', ''g'']
       = Some (File ''hello'' 7)"
proof -
  have h: "fst (is_open sample)" by code_simp
  have n: "name [''d'', ''f''] = ''f''" "name [''d'', ''f''] \<noteq> ''g''"
    "dir [''d'', ''f''] = [''d'']" "lookup (remote sample) [''d''] = Some Dir"
    by code_simp+
  have v: "lookup (remote (snd (rename [''d'', ''f''] ''g'' sample))) [''d'', ''g'']
       = Some (File ''hello'' 7)" by code_simp
  have c: "calls sample = []" by code_simp
  note t1 = rename_same_name_is_noop [OF h, of "''f''" "[''d'', ''f'']"]
  note t2 = rename_same_name_is_noop [OF h, of "''g''" "[''d'', ''f'']"]
  from t1 n(1) have a: "rename [''d'', ''f''] ''f'' sample = (Inr (), log_call Listdir sample)"
    by simp
  from t2 n have b: "calls (snd (rename [''d'', ''f''] ''g'' sample)) =
      calls sample @ [Listdir, Listdir, Chdir [''d''], Rename ''f'' ''g'']"
    by auto
  show ?thesis using h a b c v by simp
qed

section \<open>Runs that change the remote store\<close>

lemma mutations_simps:
  "mutations [] = []"
  "mutations (c # cs) = (if is_mutating c then c # mutations cs else mutations cs)"
  "mutations (xs @ ys) = mutations xs @ mutations ys"
  by (simp_all add: mutations_def)

lemma quiet_frame: "quiet m \<Longrightarrow> frame s (snd (m s))"
  by (simp add: quiet_def)

lemma lookup_entry: "lookup fs p = Some n \<Longrightarrow> p \<noteq> [] \<Longrightarrow> (p, n) \<in> set fs"
  by (auto simp: lookup_def dest: map_of_SomeD)

lemma tree_ok_entry:
  "tree_ok fs \<Longrightarrow> (q, n) \<in> set fs \<Longrightarrow> q \<noteq> [] \<and> [] \<notin> set q \<and> lookup fs (butlast q) = Some Dir"
  by (auto simp: tree_ok_def list_all_iff)

lemma tree_ok_parent:
  assumes "tree_ok fs" and "lookup fs p \<noteq> None"
  shows "lookup fs (butlast p) = Some Dir"
proof (cases "p = []")
  case True
  then show ?thesis by (simp add: lookup_def)
next
  case False
  obtain n where "lookup fs p = Some n" using assms(2) by auto
  then have "(p, n) \<in> set fs" using False by (rule lookup_entry)
  then show ?thesis using assms(1) tree_ok_entry by blast
qed

lemma tree_ok_segments:
  assumes "tree_ok fs" and "lookup fs p \<noteq> None"
  shows "[] \<notin> set p"
proof (cases "p = []")
  case True
  then show ?thesis by simp
next
  case False
  obtain n where "lookup fs p = Some n" using assms(2) by auto
  then have "(p, n) \<in> set fs" using False by (rule lookup_entry)
  then show ?thesis using assms(1) tree_ok_entry by blast
qed

lemma tree_ok_ancestors:
  assumes "tree_ok fs"
  shows "lookup fs p \<noteq> None \<Longrightarrow> k < length p \<Longrightarrow> lookup fs (take k p) = Some Dir"
proof (induction p rule: rev_induct)
  case Nil
  then show ?case by simp
next
  case (snoc x xs)
  have par: "lookup fs xs = Some Dir"
    using tree_ok_parent [OF assms snoc.prems(1)] by simp
  show ?case
  proof (cases "k < length xs")
    case True
    then show ?thesis using snoc.IH par by simp
  next
    case False
    then have "k = length xs" using snoc.prems(2) by simp
    then show ?thesis using par by simp
  qed
qed

lemma lookup_delete: "lookup (delete p fs) q = (if q = p \<and> p \<noteq> [] then None else lookup fs q)"
proof -
  have "map_of (filter (\<lambda>(r, n). r \<noteq> p) fs) q = (if q = p then None else map_of fs q)"
    by (induction fs) auto
  then show ?thesis by (auto simp: lookup_def delete_def)
qed

lemma lookup_cons: "lookup ((p, n) # fs) q = (if q = [] then Some Dir else if q = p then Some n else lookup fs q)"
  by (simp add: lookup_def)

lemma set_delete: "set (delete p fs) = {e \<in> set fs. fst e \<noteq> p}"
  by (auto simp: delete_def)

lemma not_dir_no_children:
  assumes "tree_ok fs" and "lookup fs p \<noteq> Some Dir" and "(q, n) \<in> set fs"
  shows "butlast q \<noteq> p"
  using tree_ok_entry [OF assms(1) assms(3)] assms(2) by auto

lemma tree_ok_mkdir:
  assumes "tree_ok fs" and "p \<noteq> []" and "[] \<notin> set p" and "lookup fs (butlast p) = Some Dir"
    and "lookup fs p = None"
  shows "tree_ok ((p, Dir) # fs)"
  using assms
  by (auto simp: tree_ok_def list_all_iff lookup_cons)

lemma tree_ok_replace:
  assumes "tree_ok fs" and "lookup fs p = Some (File c m)"
  shows "tree_ok ((p, Dir) # delete p fs)"
proof -
  have p: "p \<noteq> []" using assms(2) by (auto simp: lookup_def)
  have seg: "[] \<notin> set p" using tree_ok_segments [OF assms(1)] assms(2) by simp
  have par: "lookup fs (butlast p) = Some Dir" using tree_ok_parent [OF assms(1)] assms(2) by simp
  have bl: "butlast p \<noteq> p" using p by (cases p rule: rev_cases) auto
  have "q \<noteq> [] \<and> [] \<notin> set q \<and> lookup ((p, Dir) # delete p fs) (butlast q) = Some Dir"
    if "(q, n) \<in> set (delete p fs)" for q n
  proof -
    have e: "(q, n) \<in> set fs" using that by (auto simp: set_delete)
    have a: "lookup fs (butlast q) = Some Dir" using tree_ok_entry [OF assms(1) e] by simp
    have b: "butlast q \<noteq> p" using a assms(2) by auto
    show ?thesis using tree_ok_entry [OF assms(1) e] a b
      by (simp add: lookup_cons lookup_delete)
  qed
  then show ?thesis
    using p seg par bl by (auto simp: tree_ok_def list_all_iff lookup_cons lookup_delete)
qed

lemma session_mkdir_live:
  assumes "live s"
  shows "session_mkdir p s =
    (if p \<noteq> [] \<and> lookup (remote s) p = None \<and> lookup (remote s) (butlast p) = Some Dir
     then (Inr (), (log_call (Mkdir p) s)\<lparr>remote := (p, Dir) # remote s\<rparr>)
     else (Inl IOError, log_call (Mkdir p) s))"
  using live_session [OF assms] by (auto simp: session_mkdir_def Let_def)

lemma butlast_neq: "p \<noteq> [] \<Longrightarrow> butlast p \<noteq> p"
  by (cases p rule: rev_cases) auto

lemma resolve_split: "p \<noteq> [] \<Longrightarrow> [] \<notin> set p \<Longrightarrow> resolve (butlast p) (last p) = p"
  by (cases p rule: rev_cases) (auto simp: resolve_def)

text \<open>What a successful remove leaves.\<close>

lemma remove_file_live:
  assumes "live s" and "tree_ok (remote s)" and "lookup (remote s) p = Some (File c m)"
  shows "\<exists>s'. remove p s = (Inr (), s') \<and> live s' \<and> remote s' = delete p (remote s)
     \<and> stale s' = stale s \<and> mutations (calls s') = mutations (calls s) @ [Remove (last p)]"
proof -
  have p: "p \<noteq> []" using assms(3) by (auto simp: lookup_def)
  have seg: "[] \<notin> set p" using tree_ok_segments [OF assms(2)] assms(3) by simp
  have par: "lookup (remote s) (butlast p) = Some Dir"
    using tree_ok_parent [OF assms(2)] assms(3) by simp
  let ?s1 = "log_call Listdir s"
  let ?s2 = "snd (is_dir p ?s1)"
  have f2: "frame ?s1 ?s2" by (rule quiet_frame [OF quiet_is_dir])
  have l2: "live ?s2" and r2: "remote ?s2 = remote s" and m2: "mutations (calls ?s2) = mutations (calls s)"
    and st2: "stale ?s2 = stale s"
    using f2 assms(1) by (simp_all add: frame_def mutations_snoc)
  have d: "fst (is_dir p ?s1) = Inr False" using is_dir_live [of ?s1 p] assms(1,3) by simp
  let ?s3 = "(log_call (Chdir (butlast p)) (log_call Listdir (?s2\<lparr>c_cwd := Some (butlast p)\<rparr>)))"
  let ?s4 = "?s3\<lparr>c_session := Some (butlast p)\<rparr>"
  have c: "chdir (butlast p) ?s2 = (Inr (), ?s4)"
    using l2 r2 par by (simp add: chdir_live)
  have run: "remove p s = session_remove (last p) ?s4"
    using assms(1) d c
    by (simp add: remove_def bind_run assert_open_live split_path_def p with_path_def)
  have res: "resolve (butlast p) (last p) = p" using p seg by (rule resolve_split)
  have bl: "butlast p \<noteq> p" using p by (rule butlast_neq)
  have l4: "lookup (delete p (remote s)) (butlast p) = Some Dir"
    using par bl by (simp add: lookup_delete)
  have c4: "c_session ?s4 = Some (butlast p)" "remote ?s4 = remote s" "c_is_open ?s4"
    "stale ?s4 = stale s" "mutations (calls ?s4) = mutations (calls s)"
    using l2 r2 st2 m2 by (simp_all add: live_def mutations_simps)
  show ?thesis
    using run res c4 l4 assms(3)
    by (simp add: session_remove_def Let_def live_def mutations_simps)
qed


lemma make_dir_on_file:
  assumes "live s" and "lookup (remote s) p = Some (File c m)"
  shows "\<exists>s2. live s2 \<and> remote s2 = remote s \<and> stale s2 = stale s
       \<and> mutations (calls s2) = mutations (calls s)
       \<and> make_dir p ov cl fi (Some chk) s =
           (if \<not> ov then (Inl (FileExistsError p), s2)
            else if \<not> chk then bind (remove p) (\<lambda>u. session_mkdir p) s2
            else (Inr (), s2))"
proof -
  let ?s1 = "snd (is_dir p s)"
  let ?s2 = "snd (exists p ?s1)"
  have f1: "frame s ?s1" by (rule quiet_frame [OF quiet_is_dir])
  have f2: "frame ?s1 ?s2" by (rule quiet_frame [OF quiet_exists])
  have l1: "live ?s1" "remote ?s1 = remote s" using f1 assms(1) by (simp_all add: frame_def)
  have d: "fst (is_dir p s) = Inr False" using is_dir_live [OF assms(1), of p] assms(2) by simp
  have e: "fst (exists p ?s1) = Inr True" using exists_live [OF l1(1), of p] l1(2) assms(2) by simp
  have eq: "make_dir p ov cl fi (Some chk) s =
           (if \<not> ov then (Inl (FileExistsError p), ?s2)
            else if \<not> chk then bind (remove p) (\<lambda>u. session_mkdir p) ?s2
            else (Inr (), ?s2))"
    by (subst make_dir.simps) (simp add: bind_run d e raise_def return_def)
  have "live ?s2 \<and> remote ?s2 = remote s \<and> stale ?s2 = stale s
       \<and> mutations (calls ?s2) = mutations (calls s)"
    using f1 f2 assms(1) by (simp add: frame_def)
  then show ?thesis using eq by blast
qed



subsection \<open>Clearing a directory\<close>

lemma glob_live:
  assumes "live s" and "lookup (remote s) p = Some Dir"
  shows "fst (glob p s) =
     Inr (map (\<lambda>n. p @ [n]) (filter (\<lambda>n. lookup (remote s) (p @ [n]) \<noteq> None) (raw_listing s p)))"
  using list_sftp_live [OF assms, of "''*''"] by (simp add: glob_def bind_run return_def)

lemma children_entry:
  "n \<in> set (children fs d) \<longleftrightarrow> (\<exists>q x. (q, x) \<in> set fs \<and> q \<noteq> [] \<and> butlast q = d \<and> last q = n)"
  by (auto simp: children_def)

lemma entry_lookup: "(q, x) \<in> set fs \<Longrightarrow> lookup fs q \<noteq> None"
  by (auto simp: lookup_def dest: weak_map_of_SomeI)

lemma children_exist:
  assumes "n \<in> set (children fs d)"
  shows "lookup fs (d @ [n]) \<noteq> None"
proof -
  obtain q x where q: "(q, x) \<in> set fs" "q \<noteq> []" "butlast q = d" "last q = n"
    using assms by (auto simp: children_entry)
  have "d @ [n] = q" using q(2,3,4) by auto
  then show ?thesis using entry_lookup [OF q(1)] by simp
qed

lemma lookup_filter_out:
  "q \<notin> set cs \<Longrightarrow> lookup (filter (\<lambda>(r, n). r \<notin> set cs) fs) q = lookup fs q"
proof -
  assume a: "q \<notin> set cs"
  have "map_of (filter (\<lambda>(r, n). r \<notin> set cs) fs) q = map_of fs q"
    using a by (induction fs) auto
  then show ?thesis by (simp add: lookup_def)
qed

lemma delete_filter:
  "filter (\<lambda>(q, n). q \<notin> set cs) (delete c fs) = filter (\<lambda>(q, n). q \<notin> set (c # cs)) fs"
  by (induction fs) (auto simp: delete_def)

lemma make_dir_on_dir:
  assumes "live s" and "lookup (remote s) p = Some Dir"
  shows "\<exists>s3. live s3 \<and> remote s3 = remote s \<and> stale s3 = stale s
       \<and> mutations (calls s3) = mutations (calls s)
       \<and> make_dir p ov True fi (Some chk) s =
           (let cs = map (\<lambda>n. p @ [n])
                       (filter (\<lambda>n. lookup (remote s) (p @ [n]) \<noteq> None) (raw_listing s p))
            in if cs \<noteq> [] then
                 (if \<not> ov then (Inl (DirectoryNotEmptyError p), s3)
                  else if \<not> chk then remove_children cs s3
                  else (Inr (), s3))
               else (Inr (), s3))"
proof -
  let ?s1 = "snd (is_dir p s)"
  let ?s2 = "snd (glob p ?s1)"
  have f1: "frame s ?s1" by (rule quiet_frame [OF quiet_is_dir])
  have f2: "frame ?s1 ?s2" by (rule quiet_frame [OF quiet_glob])
  have l1: "live ?s1" "remote ?s1 = remote s" "stale ?s1 = stale s"
    using f1 assms(1) by (simp_all add: frame_def)
  have d: "fst (is_dir p s) = Inr True" using is_dir_live [OF assms(1), of p] assms(2) by simp
  have g: "fst (glob p ?s1) =
     Inr (map (\<lambda>n. p @ [n]) (filter (\<lambda>n. lookup (remote s) (p @ [n]) \<noteq> None) (raw_listing s p)))"
    using glob_live [OF l1(1), of p] l1(2,3) assms(2) by (simp add: raw_listing_def)
  have eq: "make_dir p ov True fi (Some chk) s =
           (let cs = map (\<lambda>n. p @ [n])
                       (filter (\<lambda>n. lookup (remote s) (p @ [n]) \<noteq> None) (raw_listing s p))
            in if cs \<noteq> [] then
                 (if \<not> ov then (Inl (DirectoryNotEmptyError p), ?s2)
                  else if \<not> chk then remove_children cs ?s2
                  else (Inr (), ?s2))
               else (Inr (), ?s2))"
    by (subst make_dir.simps) (simp add: bind_run d g raise_def return_def Let_def)
  have "live ?s2 \<and> remote ?s2 = remote s \<and> stale ?s2 = stale s
       \<and> mutations (calls ?s2) = mutations (calls s)"
    using f1 f2 assms(1) by (simp add: frame_def)
  then show ?thesis using eq by blast
qed

lemma nonempty_listing:
  assumes "children (remote s) d \<noteq> []"
  shows "filter (\<lambda>n. lookup (remote s) (d @ [n]) \<noteq> None) (raw_listing s d) \<noteq> []"
proof -
  obtain n where n: "n \<in> set (children (remote s) d)" using assms by (cases "children (remote s) d") auto
  have "lookup (remote s) (d @ [n]) \<noteq> None" using n by (rule children_exist)
  moreover have "n \<in> set (raw_listing s d)" using n by (simp add: raw_listing_def)
  ultimately show ?thesis by (auto simp: filter_empty_conv)
qed

lemma children_delete: "butlast c \<noteq> c' \<Longrightarrow> children (delete c fs) c' = children fs c'"
  by (induction fs) (auto simp: children_def delete_def)

lemma remove_run:
  assumes "live s" and "c \<noteq> []" and "[] \<notin> set c" and "lookup (remote s) (butlast c) = Some Dir"
  shows "\<exists>s'. remove c s = ((if removable (remote s) c then Inr () else Inl IOError), s')
       \<and> live s' \<and> stale s' = stale s
       \<and> remote s' = (if removable (remote s) c then delete c (remote s) else remote s)
       \<and> mutations (calls s') = mutations (calls s) @ [removal (remote s) c]"
proof -
  let ?s1 = "log_call Listdir s"
  let ?s2 = "snd (is_dir c ?s1)"
  have f2: "frame ?s1 ?s2" by (rule quiet_frame [OF quiet_is_dir])
  have l2: "live ?s2" and r2: "remote ?s2 = remote s"
    and m2: "mutations (calls ?s2) = mutations (calls s)" and st2: "stale ?s2 = stale s"
    using f2 assms(1) by (simp_all add: frame_def mutations_snoc)
  have d: "fst (is_dir c ?s1) = Inr (lookup (remote s) c = Some Dir)"
    using is_dir_live [of ?s1 c] assms(1) by simp
  let ?s3 = "(log_call (Chdir (butlast c)) (log_call Listdir (?s2\<lparr>c_cwd := Some (butlast c)\<rparr>)))"
  let ?s4 = "?s3\<lparr>c_session := Some (butlast c)\<rparr>"
  have ch: "chdir (butlast c) ?s2 = (Inr (), ?s4)"
    using l2 r2 assms(4) by (simp add: chdir_live)
  have run: "remove c s =
      (if lookup (remote s) c = Some Dir then session_rmdir (last c) ?s4
       else session_remove (last c) ?s4)"
    using assms(1) d ch
    by (simp add: remove_def bind_run assert_open_live split_path_def assms(2) with_path_def)
  have res: "resolve (butlast c) (last c) = c" using assms(2,3) by (rule resolve_split)
  have bl: "butlast c \<noteq> c" using assms(2) by (rule butlast_neq)
  have l4: "lookup (delete c (remote s)) (butlast c) = Some Dir"
    using assms(4) bl by (simp add: lookup_delete)
  have c4: "c_session ?s4 = Some (butlast c)" "remote ?s4 = remote s" "c_is_open ?s4"
    "stale ?s4 = stale s" "mutations (calls ?s4) = mutations (calls s)"
    using l2 r2 st2 m2 by (simp_all add: live_def mutations_simps)
  let ?R = "remove c s"
  have "fst ?R = (if removable (remote s) c then Inr () else Inl IOError)
       \<and> live (snd ?R) \<and> stale (snd ?R) = stale s
       \<and> remote (snd ?R) = (if removable (remote s) c then delete c (remote s) else remote s)
       \<and> mutations (calls (snd ?R)) = mutations (calls s) @ [removal (remote s) c]"
  proof (cases "lookup (remote s) c")
    case None
    then show ?thesis
      using run res c4 assms(4)
      by (simp add: session_remove_def Let_def live_def mutations_simps removable_def removal_def)
  next
    case (Some x)
    show ?thesis
    proof (cases x)
      case Dir
      then show ?thesis
        using Some run res c4 l4 assms(2,4)
        by (simp add: session_rmdir_def Let_def live_def mutations_simps removable_def removal_def)
    next
      case (File a b)
      then show ?thesis
        using Some run res c4 l4 assms(4)
        by (simp add: session_remove_def Let_def live_def mutations_simps removable_def removal_def)
    qed
  qed
  then show ?thesis by (intro exI [of _ "snd ?R"]) (simp add: prod_eq_iff)
qed

lemma filter_all_pairs: "filter (\<lambda>(q, x). q \<notin> set []) fs = fs"
  by (induction fs) auto

lemma remove_children_run:
  "live s \<Longrightarrow> lookup (remote s) d = Some Dir \<Longrightarrow>
   \<forall>c \<in> set cs. c \<noteq> [] \<and> [] \<notin> set c \<and> butlast c = d \<Longrightarrow> distinct cs \<Longrightarrow>
   \<exists>s'. remove_children cs s =
          ((if list_all (removable (remote s)) cs then Inr () else Inl IOError), s')
     \<and> live s' \<and> stale s' = stale s
     \<and> remote s' = filter (\<lambda>(q, x). q \<notin> set (takeWhile (removable (remote s)) cs)) (remote s)
     \<and> mutations (calls s') = mutations (calls s) @
          map (removal (remote s)) (take (Suc (length (takeWhile (removable (remote s)) cs))) cs)"
proof (induction cs arbitrary: s)
  case Nil
  then show ?case by (simp add: return_def filter_all_pairs)
next
  case (Cons c cs)
  have c: "c \<noteq> []" "[] \<notin> set c" "butlast c = d" using Cons.prems(3) by simp_all
  obtain s1 where s1: "remove c s = ((if removable (remote s) c then Inr () else Inl IOError), s1)"
    "live s1" "stale s1 = stale s"
    "remote s1 = (if removable (remote s) c then delete c (remote s) else remote s)"
    "mutations (calls s1) = mutations (calls s) @ [removal (remote s) c]"
    using remove_run [OF Cons.prems(1) c(1,2)] c(3) Cons.prems(2) by auto
  show ?case
  proof (cases "removable (remote s) c")
    case False
    then show ?thesis using s1 by (simp add: bind_def filter_all_pairs)
  next
    case True
    have r1: "remote s1 = delete c (remote s)" using s1(4) True by simp
    have dc: "d \<noteq> c" using c(1,3) butlast_neq [of c] by auto
    have d1: "lookup (remote s1) d = Some Dir"
      using Cons.prems(2) dc by (simp add: r1 lookup_delete)
    have same: "removable (remote s1) c' = removable (remote s) c'
        \<and> removal (remote s1) c' = removal (remote s) c'" if "c' \<in> set cs" for c'
    proof -
      have ne: "c' \<noteq> c" using that Cons.prems(4) by auto
      have "butlast c' = d" "c' \<noteq> []" using that Cons.prems(3) by simp_all
      then have "c' \<noteq> d" using butlast_neq [of c'] by auto
      then have "children (delete c (remote s)) c' = children (remote s) c'"
        using c(3) by (simp add: children_delete)
      then show ?thesis
        using ne by (simp add: removable_def removal_def r1 lookup_delete split: option.splits node.splits)
    qed
    have tw: "takeWhile (removable (remote s1)) cs = takeWhile (removable (remote s)) cs"
      using same by (intro takeWhile_cong) auto
    have la: "list_all (removable (remote s1)) cs = list_all (removable (remote s)) cs"
      using same by (auto simp: list_all_iff)
    have mp: "map (removal (remote s1)) (take k cs) = map (removal (remote s)) (take k cs)" for k
      using same by (intro map_cong) (auto dest: in_set_takeD)
    obtain s' where s': "remove_children cs s1 =
          ((if list_all (removable (remote s1)) cs then Inr () else Inl IOError), s')"
      "live s'" "stale s' = stale s1"
      "remote s' = filter (\<lambda>(q, x). q \<notin> set (takeWhile (removable (remote s1)) cs)) (remote s1)"
      "mutations (calls s') = mutations (calls s1) @
          map (removal (remote s1)) (take (Suc (length (takeWhile (removable (remote s1)) cs))) cs)"
      using Cons.IH [OF s1(2) d1] Cons.prems(3,4) by auto
    have run: "remove_children (c # cs) s = remove_children cs s1"
      using s1(1) True by (simp add: bind_def)
    note s'' = s'(1,4,5) [unfolded tw la mp]
    show ?thesis
      using run s'' s'(2,3) True s1(3,5)
      by (simp add: r1 delete_filter)
  qed
qed

lemma listed_props:
  assumes "tree_ok (remote s)" and "distinct (raw_listing s d)"
  shows "(\<forall>c \<in> set (listed s d). c \<noteq> [] \<and> [] \<notin> set c \<and> butlast c = d) \<and> distinct (listed s d)"
proof -
  have "c \<noteq> [] \<and> [] \<notin> set c \<and> butlast c = d" if cin: "c \<in> set (listed s d)" for c
  proof -
    obtain n where n: "c = d @ [n]" "lookup (remote s) (d @ [n]) \<noteq> None"
      using cin by (auto simp: listed_def)
    have "[] \<notin> set (d @ [n])" using assms(1) n(2) by (rule tree_ok_segments)
    then show ?thesis using n(1) by simp
  qed
  moreover have "distinct (listed s d)"
    using assms(2) by (simp add: listed_def distinct_map inj_on_def)
  ultimately show ?thesis by blast
qed

lemma cleared:
  assumes "lookup (remote s) d = Some Dir"
  shows "children (filter (\<lambda>(q, x). q \<notin> set (listed s d)) (remote s)) d = []
       \<and> lookup (filter (\<lambda>(q, x). q \<notin> set (listed s d)) (remote s)) d = Some Dir"
proof -
  have "q \<in> set (listed s d)" if "(q, x) \<in> set (remote s)" "q \<noteq> []" "butlast q = d" for q x
  proof -
    have n: "last q \<in> set (children (remote s) d)" using that by (auto simp: children_entry)
    have q: "d @ [last q] = q" using that(2,3) by auto
    have "lookup (remote s) (d @ [last q]) \<noteq> None" using n by (rule children_exist)
    moreover have "last q \<in> set (raw_listing s d)" using n by (simp add: raw_listing_def)
    ultimately have "last q \<in> set (filter (\<lambda>n. lookup (remote s) (d @ [n]) \<noteq> None) (raw_listing s d))"
      by simp
    then have "d @ [last q] \<in> set (listed s d)"
      unfolding listed_def by (simp only: set_map) (rule imageI)
    then show ?thesis using q by simp
  qed
  then have a: "children (filter (\<lambda>(q, x). q \<notin> set (listed s d)) (remote s)) d = []"
    unfolding children_def by (auto simp: filter_empty_conv)
  have nd: "d \<notin> set (listed s d)" by (auto simp: listed_def)
  have "lookup (filter (\<lambda>(q, x). q \<notin> set (listed s d)) (remote s)) d = lookup (remote s) d"
    by (rule lookup_filter_out [OF nd])
  then show ?thesis using a assms by simp
qed

text \<open>
  C3, as the code has it: for an existing non-empty directory (on a live connection over
  a well-formed tree), \<open>make_dir\<close> with \<open>clear\<close> and without \<open>overwrite\<close> fails with the
  directory-not-empty error and changes nothing; with \<open>overwrite\<close> the check-only pass
  issues no mutating call. The real pass, when the listing names each child once, issues
  one non-recursive removal per child, in the order of the listing, up to and including
  the first child that is a non-empty directory: the children before it are gone, the
  call raises the server's error there, and the mutating calls of the whole run are
  exactly these removals. When no child is a non-empty directory the call returns and the
  directory is still there and has no child left.
\<close>

theorem clear_existing_directory:
  assumes "live s" and "tree_ok (remote s)" and "lookup (remote s) d = Some Dir"
    and "children (remote s) d \<noteq> []"
  shows "(\<exists>s'. make_dir d False True fi None s = (Inl (DirectoryNotEmptyError d), s')
            \<and> remote s' = remote s \<and> mutations (calls s') = mutations (calls s))
       \<and> (\<exists>s'. make_dir d True True fi (Some True) s = (Inr (), s')
            \<and> remote s' = remote s \<and> mutations (calls s') = mutations (calls s))
       \<and> (distinct (raw_listing s d) \<longrightarrow>
            (\<exists>s'. make_dir d True True fi None s =
                    ((if list_all (removable (remote s)) (listed s d) then Inr () else Inl IOError), s')
               \<and> remote s' =
                   filter (\<lambda>(q, x). q \<notin> set (takeWhile (removable (remote s)) (listed s d)))
                     (remote s)
               \<and> mutations (calls s') = mutations (calls s) @
                   map (removal (remote s))
                     (take (Suc (length (takeWhile (removable (remote s)) (listed s d)))) (listed s d))
               \<and> (list_all (removable (remote s)) (listed s d) \<longrightarrow>
                    children (remote s') d = [] \<and> lookup (remote s') d = Some Dir)))"
proof (intro conjI)
  have ne: "listed s d \<noteq> []" using nonempty_listing [OF assms(4)] by (simp add: listed_def)
  show "\<exists>s'. make_dir d False True fi None s = (Inl (DirectoryNotEmptyError d), s')
            \<and> remote s' = remote s \<and> mutations (calls s') = mutations (calls s)"
    using make_dir_on_dir [OF assms(1,3), of False fi True] ne
    by (auto simp: make_dir_None Let_def listed_def)
  obtain s1 where s1: "live s1" "remote s1 = remote s" "stale s1 = stale s"
    "mutations (calls s1) = mutations (calls s)"
    "make_dir d True True fi (Some True) s = (Inr (), s1)"
    using make_dir_on_dir [OF assms(1,3), of True fi True] ne by (auto simp: Let_def listed_def)
  then show "\<exists>s'. make_dir d True True fi (Some True) s = (Inr (), s')
            \<and> remote s' = remote s \<and> mutations (calls s') = mutations (calls s)"
    by blast
  show "distinct (raw_listing s d) \<longrightarrow>
            (\<exists>s'. make_dir d True True fi None s =
                    ((if list_all (removable (remote s)) (listed s d) then Inr () else Inl IOError), s')
               \<and> remote s' =
                   filter (\<lambda>(q, x). q \<notin> set (takeWhile (removable (remote s)) (listed s d)))
                     (remote s)
               \<and> mutations (calls s') = mutations (calls s) @
                   map (removal (remote s))
                     (take (Suc (length (takeWhile (removable (remote s)) (listed s d)))) (listed s d))
               \<and> (list_all (removable (remote s)) (listed s d) \<longrightarrow>
                    children (remote s') d = [] \<and> lookup (remote s') d = Some Dir))"
  proof
    assume dist: "distinct (raw_listing s d)"
    have d1: "lookup (remote s1) d = Some Dir" using s1(2) assms(3) by simp
    have l1: "raw_listing s1 d = raw_listing s d" using s1(2,3) by (simp add: raw_listing_def)
    obtain s3 where s3: "live s3" "remote s3 = remote s"
      "mutations (calls s3) = mutations (calls s)"
      "make_dir d True True fi (Some False) s1 = remove_children (listed s d) s3"
      using make_dir_on_dir [OF s1(1) d1, of True fi False] ne s1(2,4) l1
      by (auto simp: Let_def listed_def)
    have real: "make_dir d True True fi None s = remove_children (listed s d) s3"
      using s1(5) s3(4) by (simp add: make_dir_None)
    have d3: "lookup (remote s3) d = Some Dir" using s3(2) assms(3) by simp
    note lp = listed_props [OF assms(2) dist]
    obtain s' where s': "remove_children (listed s d) s3 =
          ((if list_all (removable (remote s3)) (listed s d) then Inr () else Inl IOError), s')"
      "remote s' = filter (\<lambda>(q, x). q \<notin> set (takeWhile (removable (remote s3)) (listed s d)))
          (remote s3)"
      "mutations (calls s') = mutations (calls s3) @
          map (removal (remote s3))
            (take (Suc (length (takeWhile (removable (remote s3)) (listed s d)))) (listed s d))"
      using remove_children_run [OF s3(1) d3, of "listed s d"] lp by blast
    have fin: "children (remote s') d = [] \<and> lookup (remote s') d = Some Dir"
      if "list_all (removable (remote s)) (listed s d)"
    proof -
      have tw: "takeWhile (removable (remote s)) (listed s d) = listed s d"
        using that by (simp add: list_all_iff)
      show ?thesis using cleared [OF assms(3)] by (simp only: s'(2) s3(2) tw)
    qed
    show "\<exists>s'. make_dir d True True fi None s =
                    ((if list_all (removable (remote s)) (listed s d) then Inr () else Inl IOError), s')
               \<and> remote s' =
                   filter (\<lambda>(q, x). q \<notin> set (takeWhile (removable (remote s)) (listed s d)))
                     (remote s)
               \<and> mutations (calls s') = mutations (calls s) @
                   map (removal (remote s))
                     (take (Suc (length (takeWhile (removable (remote s)) (listed s d)))) (listed s d))
               \<and> (list_all (removable (remote s)) (listed s d) \<longrightarrow>
                    children (remote s') d = [] \<and> lookup (remote s') d = Some Dir)"
      using real s' s3(2,3) fin by (intro exI [of _ s']) simp
  qed
qed

theorem clear_existing_directory_witness:
  "live sample \<and> tree_ok (remote sample) \<and> lookup (remote sample) [''d'', ''sub''] = Some Dir
   \<and> children (remote sample) [''d'', ''sub''] = [''g'']
   \<and> fst (make_dir [''d'', ''sub''] False True True None sample)
       = Inl (DirectoryNotEmptyError [''d'', ''sub''])
   \<and> fst (make_dir [''d'', ''sub''] True True True None sample) = Inr ()
   \<and> children (remote (snd (make_dir [''d'', ''sub''] True True True None sample))) [''d'', ''sub''] = []
   \<and> mutations (calls (snd (make_dir [''d'', ''sub''] True True True None sample))) = [Remove ''g'']
   \<and> mutations (calls (snd (make_dir [''d''] True True True None sample)))
       = [Remove ''f'', Rmdir ''sub'']"
proof -
  have h: "live sample" "tree_ok (remote sample)" "lookup (remote sample) [''d'', ''sub''] = Some Dir"
    by code_simp+
  have c: "children (remote sample) [''d'', ''sub''] = [''g'']" by code_simp
  then have ne: "children (remote sample) [''d'', ''sub''] \<noteq> []" by simp
  have dist: "distinct (raw_listing sample [''d'', ''sub''])" by code_simp
  have v: "list_all (removable (remote sample)) (listed sample [''d'', ''sub''])"
    "listed sample [''d'', ''sub''] = [[''d'', ''sub'', ''g'']]"
    "removable (remote sample) [''d'', ''sub'', ''g'']"
    "removal (remote sample) [''d'', ''sub'', ''g''] = Remove ''g''"
    "mutations (calls sample) = []"
    by code_simp+
  note t = clear_existing_directory [OF h ne, of True]
  from t obtain s2 where a: "make_dir [''d'', ''sub''] False True True None sample
      = (Inl (DirectoryNotEmptyError [''d'', ''sub'']), s2)" by blast
  from t dist v(1) obtain s' where b: "make_dir [''d'', ''sub''] True True True None sample = (Inr (), s')"
    "mutations (calls s') = mutations (calls sample) @
       map (removal (remote sample))
         (take (Suc (length (takeWhile (removable (remote sample)) (listed sample [''d'', ''sub'']))))
            (listed sample [''d'', ''sub'']))"
    "children (remote s') [''d'', ''sub''] = []"
    by auto
  have m: "mutations (calls s') = [Remove ''g'']"
    using b(2) v by simp
  have h2: "lookup (remote sample) [''d''] = Some Dir" "children (remote sample) [''d''] \<noteq> []"
    "distinct (raw_listing sample [''d''])"
    by code_simp+
  have w: "listed sample [''d''] = [[''d'', ''f''], [''d'', ''sub'']]"
    "removable (remote sample) [''d'', ''f'']" "\<not> removable (remote sample) [''d'', ''sub'']"
    "removal (remote sample) [''d'', ''f''] = Remove ''f''"
    "removal (remote sample) [''d'', ''sub''] = Rmdir ''sub''"
    by code_simp+
  note u = clear_existing_directory [OF h(1,2) h2(1,2), of True]
  from u h2(3) obtain s3 where "mutations (calls s3) = mutations (calls sample) @
       map (removal (remote sample))
         (take (Suc (length (takeWhile (removable (remote sample)) (listed sample [''d'']))))
            (listed sample [''d'']))"
    and e: "make_dir [''d''] True True True None sample =
      ((if list_all (removable (remote sample)) (listed sample [''d'']) then Inr () else Inl IOError), s3)"
    by blast
  then have m2: "mutations (calls (snd (make_dir [''d''] True True True None sample)))
       = [Remove ''f'', Rmdir ''sub'']"
    using w v(5) by simp
  show ?thesis using h c a b(1,3) m m2 by simp
qed

text \<open>
  The children are removed one by one with the adapter's own \<open>remove\<close>, which does not
  empty a directory first: a child that is a non-empty directory stops the loop with the
  server's error, after the children before it have been removed.
\<close>

theorem clear_stops_at_nested_directory:
  "live sample \<and> tree_ok (remote sample) \<and> lookup (remote sample) [''d''] = Some Dir
   \<and> children (remote sample) [''d''] = [''f'', ''sub'']
   \<and> fst (make_dir [''d''] True True True None sample) = Inl IOError
   \<and> children (remote (snd (make_dir [''d''] True True True None sample))) [''d''] = [''sub'']"
  by code_simp

subsection \<open>Creating a missing path\<close>

lemma dir_butlast: "dir p = butlast p"
  by (simp add: dir_def split_path_def)

lemma bind_assoc: "bind (bind m f) g = bind m (\<lambda>x. bind (f x) g)"
  by (rule ext) (simp add: bind_def split: prod.splits sum.splits)

lemma bind_known: "fst (m s) = Inr x \<Longrightarrow> bind m f s = f x (snd (m s))"
  by (simp add: bind_run)

lemma bind_return: "bind (return x) f s = f x s"
  by (simp add: bind_def return_def)

lemma bind_raise: "bind (raise e) f s = (Inl e, s)"
  by (simp add: bind_def raise_def)

lemma make_dir_on_missing:
  assumes "live s" and "lookup (remote s) p = None"
  shows "\<exists>s3. live s3 \<and> remote s3 = remote s \<and> stale s3 = stale s
       \<and> mutations (calls s3) = mutations (calls s)
       \<and> make_dir p ov cl fi (Some chk) s =
           (if lookup (remote s) (dir p) \<noteq> Some Dir then
              (if \<not> fi then (Inl (NotADirectoryError (dir p)), s3)
               else bind (make_dir (dir p) ov False True (Some chk))
                      (\<lambda>u. if \<not> chk then session_mkdir p else return ()) s3)
            else if \<not> chk then session_mkdir p s3 else (Inr (), s3))"
proof -
  let ?s1 = "snd (is_dir p s)"
  let ?s2 = "snd (exists p ?s1)"
  let ?s3 = "snd (is_dir (dir p) ?s2)"
  have f1: "frame s ?s1" by (rule quiet_frame [OF quiet_is_dir])
  have f2: "frame ?s1 ?s2" by (rule quiet_frame [OF quiet_exists])
  have f3: "frame ?s2 ?s3" by (rule quiet_frame [OF quiet_is_dir])
  have l1: "live ?s1" "remote ?s1 = remote s" using f1 assms(1) by (simp_all add: frame_def)
  have l2: "live ?s2" "remote ?s2 = remote s" using f2 l1 by (simp_all add: frame_def)
  have p: "p \<noteq> []" using assms(2) by (auto simp: lookup_def)
  have np: "dir p \<noteq> p" using butlast_neq [OF p] by (simp add: dir_butlast)
  have d: "fst (is_dir p s) = Inr False" using is_dir_live [OF assms(1), of p] assms(2) by simp
  have e: "fst (exists p ?s1) = Inr False" using exists_live [OF l1(1), of p] l1(2) assms(2) by simp
  have pd: "fst (is_dir (dir p) ?s2) = Inr (lookup (remote s) (dir p) = Some Dir)"
    using is_dir_live [OF l2(1), of "dir p"] l2(2) by simp
  have eq: "make_dir p ov cl fi (Some chk) s =
           (if lookup (remote s) (dir p) \<noteq> Some Dir then
              (if \<not> fi then (Inl (NotADirectoryError (dir p)), ?s3)
               else bind (make_dir (dir p) ov False True (Some chk))
                      (\<lambda>u. if \<not> chk then session_mkdir p else return ()) ?s3)
            else if \<not> chk then session_mkdir p ?s3 else (Inr (), ?s3))"
    by (subst make_dir.simps)
       (simp add: bind_assoc bind_known [of "is_dir p" s, OF d]
          bind_known [of "exists p" ?s1, OF e] bind_known [of "is_dir (dir p)" ?s2, OF pd] np
          bind_return bind_raise return_def)
  have "live ?s3 \<and> remote ?s3 = remote s \<and> stale ?s3 = stale s
       \<and> mutations (calls ?s3) = mutations (calls s)"
    using f1 f2 f3 assms(1) by (simp add: frame_def)
  then show ?thesis using eq by blast
qed

lemma make_dir_keep_dir:
  assumes "live s" and "lookup (remote s) p = Some Dir"
  shows "make_dir p ov False fi (Some chk) s = (Inr (), snd (is_dir p s))"
proof -
  have d: "fst (is_dir p s) = Inr True" using is_dir_live [OF assms(1), of p] assms(2) by simp
  show ?thesis
    by (subst make_dir.simps) (simp add: bind_run d return_def)
qed

lemma session_mkdir_ok:
  assumes "live s" and "tree_ok (remote s)" and "[] \<notin> set p" and "session_mkdir p s = (Inr (), s')"
  shows "live s' \<and> tree_ok (remote s') \<and> lookup (remote s') p = Some Dir"
proof -
  have c: "p \<noteq> []" "lookup (remote s) p = None" "lookup (remote s) (butlast p) = Some Dir"
    and s': "s' = (log_call (Mkdir p) s)\<lparr>remote := (p, Dir) # remote s\<rparr>"
    using assms(4) by (auto simp: session_mkdir_live [OF assms(1)] split: if_splits)
  obtain cwd where cwd: "c_session s = Some cwd" "lookup (remote s) cwd = Some Dir"
    using live_session [OF assms(1)] by auto
  have "cwd \<noteq> p" using cwd(2) c(2) by auto
  then have "live s'" using assms(1) cwd by (simp add: s' live_def lookup_cons)
  moreover have "tree_ok (remote s')"
    using tree_ok_mkdir [OF assms(2) c(1) assms(3) c(3) c(2)] by (simp add: s')
  ultimately show ?thesis using c(1) by (simp add: s' lookup_cons)
qed

lemma replace_file_ok:
  assumes "live s" and "tree_ok (remote s)" and "lookup (remote s) p = Some (File c m)"
    and "bind (remove p) (\<lambda>u. session_mkdir p) s = (Inr (), s')"
  shows "live s' \<and> tree_ok (remote s') \<and> lookup (remote s') p = Some Dir"
proof -
  have p: "p \<noteq> []" using assms(3) by (auto simp: lookup_def)
  obtain s4 where s4: "remove p s = (Inr (), s4)" "live s4" "remote s4 = delete p (remote s)"
    using remove_file_live [OF assms(1,2,3)] by auto
  have mk: "session_mkdir p s4 = (Inr (), s')" using assms(4) s4(1) by (simp add: bind_def)
  have s': "s' = (log_call (Mkdir p) s4)\<lparr>remote := (p, Dir) # remote s4\<rparr>"
    using mk by (auto simp: session_mkdir_live [OF s4(2)] split: if_splits)
  obtain cwd where cwd: "c_session s4 = Some cwd" "lookup (remote s4) cwd = Some Dir"
    using live_session [OF s4(2)] by auto
  have "cwd \<noteq> p" using cwd(2) s4(3) p by (auto simp: lookup_delete)
  then have "live s'" using s4(2) cwd by (simp add: s' live_def lookup_cons)
  moreover have "tree_ok (remote s')"
    using tree_ok_replace [OF assms(2,3)] by (simp add: s' s4(3))
  ultimately show ?thesis using p by (simp add: s' lookup_cons)
qed

lemma session_mkdir_run:
  assumes "live s" and "tree_ok (remote s)" and "p \<noteq> []" and "[] \<notin> set p"
    and "lookup (remote s) p = None" and "lookup (remote s) (butlast p) = Some Dir"
  shows "\<exists>s'. session_mkdir p s = (Inr (), s') \<and> live s' \<and> tree_ok (remote s')
       \<and> lookup (remote s') p = Some Dir
       \<and> (\<forall>r. r \<noteq> p \<longrightarrow> lookup (remote s') r = lookup (remote s) r)
       \<and> mutations (calls s') = mutations (calls s) @ [Mkdir p]"
proof -
  let ?s' = "(log_call (Mkdir p) s)\<lparr>remote := (p, Dir) # remote s\<rparr>"
  have run: "session_mkdir p s = (Inr (), ?s')"
    using assms(3,5,6) by (simp add: session_mkdir_live [OF assms(1)])
  have ok: "live ?s' \<and> tree_ok (remote ?s') \<and> lookup (remote ?s') p = Some Dir"
    using session_mkdir_ok [OF assms(1,2,4) run] .
  have fr: "\<forall>r. r \<noteq> p \<longrightarrow> lookup (remote ?s') r = lookup (remote s) r"
    by (simp add: lookup_cons) (simp add: lookup_def)
  have mu: "mutations (calls ?s') = mutations (calls s) @ [Mkdir p]"
    by (simp add: mutations_simps)
  show ?thesis using run ok fr mu by blast
qed

lemma make_dir_check_ok:
  "live s \<Longrightarrow>
   ov \<or> (\<forall>k \<le> length p. \<forall>c m. lookup (remote s) (take k p) \<noteq> Some (File c m)) \<Longrightarrow>
   (lookup (remote s) p = Some Dir \<longrightarrow> \<not> cl) \<Longrightarrow>
   fst (make_dir p ov cl True (Some True) s) = Inr ()"
proof (induction p arbitrary: s cl rule: rev_induct)
  case Nil
  have d: "lookup (remote s) [] = Some Dir" by (simp add: lookup_def)
  then have cl: "\<not> cl" using Nil.prems(3) by simp
  show ?case using make_dir_keep_dir [OF Nil.prems(1) d, of ov True True] cl by simp
next
  case (snoc x xs)
  let ?p = "xs @ [x]"
  show ?case
  proof (cases "lookup (remote s) ?p")
    case None
    obtain s3 where s3: "live s3" "remote s3 = remote s"
      and eq: "make_dir ?p ov cl True (Some True) s =
           (if lookup (remote s) xs \<noteq> Some Dir then
              bind (make_dir xs ov False True (Some True)) (\<lambda>u. return ()) s3
            else (Inr (), s3))"
      using make_dir_on_missing [OF snoc.prems(1) None, of ov cl True True]
      by (auto simp: dir_butlast)
    show ?thesis
    proof (cases "lookup (remote s) xs = Some Dir")
      case True
      then show ?thesis using eq by simp
    next
      case False
      have pre: "ov \<or> (\<forall>k \<le> length xs. \<forall>c m. lookup (remote s3) (take k xs) \<noteq> Some (File c m))"
      proof (cases ov)
        case True then show ?thesis by simp
      next
        case nov: False
        have "lookup (remote s) (take k xs) \<noteq> Some (File c m)" if "k \<le> length xs" for k c m
          using snoc.prems(2) nov that by (auto dest!: spec [of _ k])
        then show ?thesis using s3(2) by simp
      qed
      have "fst (make_dir xs ov False True (Some True) s3) = Inr ()"
        using snoc.IH [OF s3(1) pre, of False] by simp
      then show ?thesis
        using eq False
        by (cases "make_dir xs ov False True (Some True) s3") (simp add: bind_def return_def)
    qed
  next
    case (Some n)
    show ?thesis
    proof (cases n)
      case Dir
      then have d: "lookup (remote s) ?p = Some Dir" using Some by simp
      then have cl: "\<not> cl" using snoc.prems(3) by simp
      show ?thesis using make_dir_keep_dir [OF snoc.prems(1) d, of ov True True] cl by simp
    next
      case (File c m)
      then have f: "lookup (remote s) ?p = Some (File c m)" using Some by simp
      have ov: ov
      proof (rule ccontr)
        assume "\<not> ov"
        then have "lookup (remote s) (take (length ?p) ?p) \<noteq> Some (File c m)"
          using snoc.prems(2) by blast
        then show False using f by simp
      qed
      show ?thesis
        using make_dir_on_file [OF snoc.prems(1) f, of ov cl True True] ov by auto
    qed
  qed
qed

lemma make_dir_check_blocked:
  "live s \<Longrightarrow> tree_ok (remote s) \<Longrightarrow> \<not> ov \<Longrightarrow> k \<le> length p \<Longrightarrow>
   lookup (remote s) (take k p) = Some (File c m) \<Longrightarrow>
   fst (make_dir p ov cl True (Some True) s) = Inl (FileExistsError (take k p))"
proof (induction p arbitrary: s cl rule: rev_induct)
  case Nil
  then show ?case by (simp add: lookup_def)
next
  case (snoc x xs)
  let ?p = "xs @ [x]"
  show ?case
  proof (cases "k = length ?p")
    case True
    then have f: "lookup (remote s) ?p = Some (File c m)" using snoc.prems(5) by simp
    show ?thesis
      using make_dir_on_file [OF snoc.prems(1) f, of ov cl True True] snoc.prems(3) True by auto
  next
    case False
    then have k: "k \<le> length xs" using snoc.prems(4) by simp
    then have tk: "take k ?p = take k xs" by simp
    have f: "lookup (remote s) (take k xs) = Some (File c m)" using snoc.prems(5) tk by simp
    have none: "lookup (remote s) ?p = None"
    proof (rule ccontr)
      assume "lookup (remote s) ?p \<noteq> None"
      then have "lookup (remote s) (take k ?p) = Some Dir"
        using tree_ok_ancestors [OF snoc.prems(2), of ?p k] k by simp
      then show False using snoc.prems(5) by simp
    qed
    have nd: "lookup (remote s) xs \<noteq> Some Dir"
    proof (cases "k = length xs")
      case True
      then show ?thesis using f by simp
    next
      case False
      then have kl: "k < length xs" using k by simp
      show ?thesis
      proof
        assume "lookup (remote s) xs = Some Dir"
        then have "lookup (remote s) (take k xs) = Some Dir"
          using tree_ok_ancestors [OF snoc.prems(2), of xs k] kl by simp
        then show False using f by simp
      qed
    qed
    obtain s3 where s3: "live s3" "remote s3 = remote s"
      and eq: "make_dir ?p ov cl True (Some True) s =
              bind (make_dir xs ov False True (Some True)) (\<lambda>u. return ()) s3"
      using make_dir_on_missing [OF snoc.prems(1) none, of ov cl True True] nd
      by (auto simp: dir_butlast)
    have "fst (make_dir xs ov False True (Some True) s3) = Inl (FileExistsError (take k xs))"
      using snoc.IH [OF s3(1) _ snoc.prems(3) k, of False] s3(2) snoc.prems(2) f by simp
    then show ?thesis
      using eq tk
      by (cases "make_dir xs ov False True (Some True) s3") (simp add: bind_def)
  qed
qed

lemma make_dir_real_run:
  "live s \<Longrightarrow> tree_ok (remote s) \<Longrightarrow> [] \<notin> set p \<Longrightarrow>
   ov \<or> (\<forall>k \<le> length p. \<forall>c m. lookup (remote s) (take k p) \<noteq> Some (File c m)) \<Longrightarrow>
   (lookup (remote s) p = Some Dir \<longrightarrow> \<not> cl) \<Longrightarrow>
   \<exists>s' ms. make_dir p ov cl True (Some False) s = (Inr (), s')
     \<and> live s' \<and> tree_ok (remote s') \<and> lookup (remote s') p = Some Dir
     \<and> (\<forall>r. length p < length r \<longrightarrow> lookup (remote s') r = lookup (remote s) r)
     \<and> mutations (calls s') = mutations (calls s) @ ms
     \<and> (lookup (remote s) p = None \<longrightarrow> ms \<noteq> [] \<and> last ms = Mkdir p)"
proof (induction p arbitrary: s cl rule: rev_induct)
  case Nil
  have d: "lookup (remote s) [] = Some Dir" by (simp add: lookup_def)
  then have cl: "\<not> cl" using Nil.prems(5) by simp
  have run: "make_dir [] ov cl True (Some False) s = (Inr (), snd (is_dir [] s))"
    using make_dir_keep_dir [OF Nil.prems(1) d, of ov True False] cl by simp
  have fr: "frame s (snd (is_dir [] s))" by (rule quiet_frame [OF quiet_is_dir])
  show ?case
    using run fr Nil.prems(1,2) d
    by (intro exI [of _ "snd (is_dir [] s)"] exI [of _ "[]"]) (simp add: frame_def)
next
  case (snoc x xs)
  let ?p = "xs @ [x]"
  have x: "[] \<notin> set xs" "?p \<noteq> []" "butlast ?p = xs" using snoc.prems(3) by simp_all
  show ?case
  proof (cases "lookup (remote s) ?p")
    case None
    obtain s3 where s3: "live s3" "remote s3 = remote s"
      "mutations (calls s3) = mutations (calls s)"
      and eq: "make_dir ?p ov cl True (Some False) s =
           (if lookup (remote s) xs \<noteq> Some Dir then
              bind (make_dir xs ov False True (Some False)) (\<lambda>u. session_mkdir ?p) s3
            else session_mkdir ?p s3)"
      using make_dir_on_missing [OF snoc.prems(1) None, of ov cl True False]
      by (auto simp: dir_butlast)
    show ?thesis
    proof (cases "lookup (remote s) xs = Some Dir")
      case True
      obtain s' where s': "session_mkdir ?p s3 = (Inr (), s')" "live s'" "tree_ok (remote s')"
        "lookup (remote s') ?p = Some Dir"
        "\<forall>r. r \<noteq> ?p \<longrightarrow> lookup (remote s') r = lookup (remote s3) r"
        "mutations (calls s') = mutations (calls s3) @ [Mkdir ?p]"
        using session_mkdir_run [of s3 ?p] s3 snoc.prems(2,3) None True x by auto
      have fr: "\<forall>r. length ?p < length r \<longrightarrow> lookup (remote s') r = lookup (remote s) r"
      proof (intro allI impI)
        fix r :: path
        assume "length ?p < length r"
        then have "r \<noteq> ?p" by auto
        then show "lookup (remote s') r = lookup (remote s) r" using s'(5) s3(2) by simp
      qed
      show ?thesis
        using eq True s'(1,2,3,4,6) s3(3) fr
        by (intro exI [of _ s'] exI [of _ "[Mkdir ?p]"]) simp
    next
      case False
      have pre: "ov \<or> (\<forall>k \<le> length xs. \<forall>c m. lookup (remote s3) (take k xs) \<noteq> Some (File c m))"
      proof (cases ov)
        case True then show ?thesis by simp
      next
        case nov: False
        have "lookup (remote s) (take k xs) \<noteq> Some (File c m)" if "k \<le> length xs" for k c m
          using snoc.prems(4) nov that by (auto dest!: spec [of _ k])
        then show ?thesis using s3(2) by simp
      qed
      obtain s4 ms where s4: "make_dir xs ov False True (Some False) s3 = (Inr (), s4)"
        "live s4" "tree_ok (remote s4)" "lookup (remote s4) xs = Some Dir"
        "\<forall>r. length xs < length r \<longrightarrow> lookup (remote s4) r = lookup (remote s3) r"
        "mutations (calls s4) = mutations (calls s3) @ ms"
        using snoc.IH [OF s3(1) _ x(1) pre, of False] s3(2) snoc.prems(2) by auto
      have n4: "lookup (remote s4) ?p = None" using s4(5) s3(2) None by simp
      obtain s' where s': "session_mkdir ?p s4 = (Inr (), s')" "live s'" "tree_ok (remote s')"
        "lookup (remote s') ?p = Some Dir"
        "\<forall>r. r \<noteq> ?p \<longrightarrow> lookup (remote s') r = lookup (remote s4) r"
        "mutations (calls s') = mutations (calls s4) @ [Mkdir ?p]"
        using session_mkdir_run [of s4 ?p] s4(2,3,4) snoc.prems(3) n4 x by auto
      have run: "make_dir ?p ov cl True (Some False) s = (Inr (), s')"
        using eq False s4(1) s'(1) by (simp add: bind_def)
      have fr: "\<forall>r. length ?p < length r \<longrightarrow> lookup (remote s') r = lookup (remote s) r"
      proof (intro allI impI)
        fix r :: path
        assume l: "length ?p < length r"
        then have "r \<noteq> ?p" by auto
        then have "lookup (remote s') r = lookup (remote s4) r" using s'(5) by simp
        moreover have "lookup (remote s4) r = lookup (remote s3) r" using s4(5) l by simp
        ultimately show "lookup (remote s') r = lookup (remote s) r" using s3(2) by simp
      qed
      show ?thesis
        using run s'(2,3,4,6) s4(6) s3(3) fr
        by (intro exI [of _ s'] exI [of _ "ms @ [Mkdir ?p]"]) simp
    qed
  next
    case (Some n)
    show ?thesis
    proof (cases n)
      case Dir
      then have d: "lookup (remote s) ?p = Some Dir" using Some by simp
      then have cl: "\<not> cl" using snoc.prems(5) by simp
      have run: "make_dir ?p ov cl True (Some False) s = (Inr (), snd (is_dir ?p s))"
        using make_dir_keep_dir [OF snoc.prems(1) d, of ov True False] cl by simp
      have fr: "frame s (snd (is_dir ?p s))" by (rule quiet_frame [OF quiet_is_dir])
      show ?thesis
        using run fr snoc.prems(1,2) d
        by (intro exI [of _ "snd (is_dir ?p s)"] exI [of _ "[]"]) (simp add: frame_def)
    next
      case (File c m)
      then have f: "lookup (remote s) ?p = Some (File c m)" using Some by simp
      have ov: ov
      proof (rule ccontr)
        assume "\<not> ov"
        then have "lookup (remote s) (take (length ?p) ?p) \<noteq> Some (File c m)"
          using snoc.prems(4) by blast
        then show False using f by simp
      qed
      obtain s2 where s2: "live s2" "remote s2 = remote s"
        "mutations (calls s2) = mutations (calls s)"
        and eq: "make_dir ?p ov cl True (Some False) s =
              bind (remove ?p) (\<lambda>u. session_mkdir ?p) s2"
        using make_dir_on_file [OF snoc.prems(1) f, of ov cl True False] ov by auto
      obtain s5 where s5: "remove ?p s2 = (Inr (), s5)" "live s5"
        "remote s5 = delete ?p (remote s)"
        "mutations (calls s5) = mutations (calls s2) @ [Remove (last ?p)]"
        using remove_file_live [of s2 ?p c m] s2 snoc.prems(2) f by auto
      have b: "bind (remove ?p) (\<lambda>u. session_mkdir ?p) s2 = session_mkdir ?p s5"
        using s5(1) by (simp add: bind_def)
      have par: "lookup (remote s) xs = Some Dir"
        using tree_ok_parent [OF snoc.prems(2), of ?p] f by simp
      have mk: "session_mkdir ?p s5 =
          (Inr (), (log_call (Mkdir ?p) s5)\<lparr>remote := (?p, Dir) # remote s5\<rparr>)"
        using par by (simp add: session_mkdir_live [OF s5(2)] s5(3) lookup_delete)
      let ?s' = "(log_call (Mkdir ?p) s5)\<lparr>remote := (?p, Dir) # remote s5\<rparr>"
      have run: "make_dir ?p ov cl True (Some False) s = (Inr (), ?s')"
        using eq b mk by simp
      have ok: "live ?s' \<and> tree_ok (remote ?s') \<and> lookup (remote ?s') ?p = Some Dir"
        using replace_file_ok [of s2 ?p c m ?s'] s2 snoc.prems(2) f b mk by simp
      have fr: "\<forall>r. length ?p < length r \<longrightarrow> lookup (remote ?s') r = lookup (remote s) r"
        by (auto simp: lookup_cons s5(3) lookup_delete)
      have mu: "mutations (calls ?s') = mutations (calls s) @ [Remove (last ?p), Mkdir ?p]"
        using s5(4) s2(3) by (simp add: mutations_simps)
      show ?thesis
        using run ok fr mu f
        by (intro exI [of _ ?s'] exI [of _ "[Remove (last ?p), Mkdir ?p]"]) simp
    qed
  qed
qed

text \<open>
  C2, as the code has it: for a path that does not exist (on a live connection over a
  well-formed tree). When the parent is not a directory and \<open>fill\<close> is false, \<open>make_dir\<close>
  fails with the not-a-directory error and changes nothing. When the parent is not a
  directory and \<open>fill\<close> is true, the call is, after its probes, the call on the parent with
  the same \<open>overwrite\<close> and \<open>check_only\<close> and with \<open>clear\<close> false, followed by the
  creation of the target on the real pass only. The check-only pass never changes the
  store. With \<open>fill\<close> true the whole call returns without error whenever \<open>overwrite\<close> is
  set or no ancestor is a file: afterwards the path and every ancestor up to the root are
  directories, and the last mutating call is the creation of the target. With \<open>overwrite\<close>
  false and an ancestor that is a file, the call fails with the file-exists error for that
  ancestor and changes nothing.
\<close>

theorem make_dir_missing_path:
  assumes "live s" and "tree_ok (remote s)" and "[] \<notin> set p" and "lookup (remote s) p = None"
  shows "(lookup (remote s) (dir p) \<noteq> Some Dir \<longrightarrow>
            (\<exists>s'. make_dir p ov cl False None s = (Inl (NotADirectoryError (dir p)), s')
               \<and> remote s' = remote s \<and> mutations (calls s') = mutations (calls s)))
       \<and> (lookup (remote s) (dir p) \<noteq> Some Dir \<longrightarrow>
            (\<exists>s3. remote s3 = remote s \<and> mutations (calls s3) = mutations (calls s)
               \<and> make_dir p ov cl True (Some chk) s =
                   bind (make_dir (dir p) ov False True (Some chk))
                     (\<lambda>u. if \<not> chk then session_mkdir p else return ()) s3))
       \<and> (\<forall>r s'. make_dir p ov cl fi (Some True) s = (r, s') \<longrightarrow>
            remote s' = remote s \<and> mutations (calls s') = mutations (calls s))
       \<and> (ov \<or> (\<forall>k \<le> length p. \<forall>c m. lookup (remote s) (take k p) \<noteq> Some (File c m)) \<longrightarrow>
            (\<exists>s' ms. make_dir p ov cl True None s = (Inr (), s')
               \<and> (\<forall>k \<le> length p. lookup (remote s') (take k p) = Some Dir)
               \<and> mutations (calls s') = mutations (calls s) @ ms @ [Mkdir p]))
       \<and> (\<forall>k c m. \<not> ov \<and> k \<le> length p \<and> lookup (remote s) (take k p) = Some (File c m) \<longrightarrow>
            (\<exists>s'. make_dir p ov cl True None s = (Inl (FileExistsError (take k p)), s')
               \<and> remote s' = remote s \<and> mutations (calls s') = mutations (calls s)))"
proof (intro conjI)
  show "lookup (remote s) (dir p) \<noteq> Some Dir \<longrightarrow>
            (\<exists>s'. make_dir p ov cl False None s = (Inl (NotADirectoryError (dir p)), s')
               \<and> remote s' = remote s \<and> mutations (calls s') = mutations (calls s))"
    using make_dir_on_missing [OF assms(1,4), of ov cl False True]
    by (auto simp: make_dir_None)
  show "lookup (remote s) (dir p) \<noteq> Some Dir \<longrightarrow>
            (\<exists>s3. remote s3 = remote s \<and> mutations (calls s3) = mutations (calls s)
               \<and> make_dir p ov cl True (Some chk) s =
                   bind (make_dir (dir p) ov False True (Some chk))
                     (\<lambda>u. if \<not> chk then session_mkdir p else return ()) s3)"
    using make_dir_on_missing [OF assms(1,4), of ov cl True chk] by auto
  show "\<forall>r s'. make_dir p ov cl fi (Some True) s = (r, s') \<longrightarrow>
            remote s' = remote s \<and> mutations (calls s') = mutations (calls s)"
    using quiet_make_dir_check [of p ov cl fi] by (auto simp: frame_def dest!: quietD)
  obtain r1 s1 where dry: "make_dir p ov cl True (Some True) s = (r1, s1)"
    by (cases "make_dir p ov cl True (Some True) s")
  have f: "frame s s1" using quiet_make_dir_check dry by (rule quietD)
  have s1: "live s1" "tree_ok (remote s1)" "remote s1 = remote s"
    "mutations (calls s1) = mutations (calls s)"
    using f assms by (simp_all add: frame_def)
  show "ov \<or> (\<forall>k \<le> length p. \<forall>c m. lookup (remote s) (take k p) \<noteq> Some (File c m)) \<longrightarrow>
            (\<exists>s' ms. make_dir p ov cl True None s = (Inr (), s')
               \<and> (\<forall>k \<le> length p. lookup (remote s') (take k p) = Some Dir)
               \<and> mutations (calls s') = mutations (calls s) @ ms @ [Mkdir p])"
  proof
    assume way: "ov \<or> (\<forall>k \<le> length p. \<forall>c m. lookup (remote s) (take k p) \<noteq> Some (File c m))"
    have "fst (make_dir p ov cl True (Some True) s) = Inr ()"
      using make_dir_check_ok [OF assms(1) way] assms(4) by simp
    then have r1: "r1 = Inr ()" using dry by simp
    have way1: "ov \<or> (\<forall>k \<le> length p. \<forall>c m. lookup (remote s1) (take k p) \<noteq> Some (File c m))"
      using way s1(3) by simp
    obtain s' ms where s': "make_dir p ov cl True (Some False) s1 = (Inr (), s')"
      "tree_ok (remote s')" "lookup (remote s') p = Some Dir"
      "mutations (calls s') = mutations (calls s1) @ ms"
      "ms \<noteq> [] \<and> last ms = Mkdir p"
      using make_dir_real_run [OF s1(1,2) assms(3) way1, of cl] s1(3) assms(4) by auto
    have run: "make_dir p ov cl True None s = (Inr (), s')"
      using dry r1 s'(1) by (simp add: make_dir_None)
    have anc: "lookup (remote s') (take k p) = Some Dir" if "k \<le> length p" for k
    proof (cases "k < length p")
      case True
      then show ?thesis using tree_ok_ancestors [OF s'(2), of p k] s'(3) by simp
    next
      case False
      then show ?thesis using that s'(3) by simp
    qed
    have ms: "ms = butlast ms @ [Mkdir p]"
      using s'(5) append_butlast_last_id [of ms] by simp
    have mu: "mutations (calls s') = mutations (calls s) @ butlast ms @ [Mkdir p]"
      using s'(4) s1(4) ms by simp
    show "\<exists>s' ms. make_dir p ov cl True None s = (Inr (), s')
               \<and> (\<forall>k \<le> length p. lookup (remote s') (take k p) = Some Dir)
               \<and> mutations (calls s') = mutations (calls s) @ ms @ [Mkdir p]"
      using run anc mu by blast
  qed
  show "\<forall>k c m. \<not> ov \<and> k \<le> length p \<and> lookup (remote s) (take k p) = Some (File c m) \<longrightarrow>
            (\<exists>s'. make_dir p ov cl True None s = (Inl (FileExistsError (take k p)), s')
               \<and> remote s' = remote s \<and> mutations (calls s') = mutations (calls s))"
  proof (intro allI impI)
    fix k c m
    assume h: "\<not> ov \<and> k \<le> length p \<and> lookup (remote s) (take k p) = Some (File c m)"
    have "fst (make_dir p ov cl True (Some True) s) = Inl (FileExistsError (take k p))"
      using make_dir_check_blocked [OF assms(1,2), of ov k p c m cl] h by simp
    then have "make_dir p ov cl True None s = (Inl (FileExistsError (take k p)), s1)"
      using dry by (simp add: make_dir_None)
    then show "\<exists>s'. make_dir p ov cl True None s = (Inl (FileExistsError (take k p)), s')
               \<and> remote s' = remote s \<and> mutations (calls s') = mutations (calls s)"
      using s1(3,4) by blast
  qed
qed

theorem make_dir_missing_path_witness:
  "live sample \<and> tree_ok (remote sample) \<and> [] \<notin> set [''e'', ''a'', ''b'']
   \<and> lookup (remote sample) [''e'', ''a'', ''b''] = None
   \<and> lookup (remote sample) (dir [''e'', ''a'', ''b'']) \<noteq> Some Dir
   \<and> fst (make_dir [''e'', ''a'', ''b''] False False False None sample)
       = Inl (NotADirectoryError [''e'', ''a''])
   \<and> fst (make_dir [''e'', ''a'', ''b''] False False True None sample) = Inr ()
   \<and> lookup (remote (snd (make_dir [''e'', ''a'', ''b''] False False True None sample)))
         [''e''] = Some Dir
   \<and> lookup (remote (snd (make_dir [''e'', ''a'', ''b''] False False True None sample)))
         [''e'', ''a''] = Some Dir
   \<and> lookup (remote (snd (make_dir [''e'', ''a'', ''b''] False False True None sample)))
         [''e'', ''a'', ''b''] = Some Dir
   \<and> mutations (calls (snd (make_dir [''e'', ''a'', ''b''] False False True None sample)))
       = [Mkdir [''e'', ''a''], Mkdir [''e'', ''a'', ''b'']]
   \<and> make_dir [''t'', ''x''] False False True None sample
       = (Inl (FileExistsError [''t'']), snd (make_dir [''t'', ''x''] False False True None sample))
   \<and> mutations (calls (snd (make_dir [''t'', ''x''] False False True None sample))) = []"
proof -
  have h: "live sample" "tree_ok (remote sample)" "[] \<notin> set [''e'', ''a'', ''b'']"
    "lookup (remote sample) [''e'', ''a'', ''b''] = None"
    by code_simp+
  have n: "lookup (remote sample) (dir [''e'', ''a'', ''b'']) \<noteq> Some Dir" by code_simp
  have d: "dir [''e'', ''a'', ''b''] = [''e'', ''a'']" by code_simp
  have mu: "mutations (calls (snd (make_dir [''e'', ''a'', ''b''] False False True None sample)))
       = [Mkdir [''e'', ''a''], Mkdir [''e'', ''a'', ''b'']]" by code_simp
  have way: "\<forall>k \<le> length [''e'', ''a'', ''b'']. \<forall>c m.
      lookup (remote sample) (take k [''e'', ''a'', ''b'']) \<noteq> Some (File c m)"
  proof (intro allI impI)
    fix k :: nat and c m
    assume "k \<le> length [''e'', ''a'', ''b'']"
    then have "k = 0 \<or> k = Suc 0 \<or> k = Suc (Suc 0) \<or> k = Suc (Suc (Suc 0))" by auto
    moreover have "lookup (remote sample) [] = Some Dir" "lookup (remote sample) [''e''] = Some Dir"
      "lookup (remote sample) [''e'', ''a''] = None"
      by code_simp+
    ultimately show "lookup (remote sample) (take k [''e'', ''a'', ''b'']) \<noteq> Some (File c m)"
      using h(4) by auto
  qed
  note t = make_dir_missing_path [OF h, of False False True True]
  from t n obtain s2 where a: "make_dir [''e'', ''a'', ''b''] False False False None sample
      = (Inl (NotADirectoryError (dir [''e'', ''a'', ''b''])), s2)" by blast
  from t way obtain s' where s': "make_dir [''e'', ''a'', ''b''] False False True None sample = (Inr (), s')"
    and b: "\<forall>k \<le> length [''e'', ''a'', ''b'']. lookup (remote s')
      (take k [''e'', ''a'', ''b'']) = Some Dir" by blast
  have "lookup (remote s') [''e''] = Some Dir"
    "lookup (remote s') [''e'', ''a''] = Some Dir"
    "lookup (remote s') [''e'', ''a'', ''b''] = Some Dir"
    using b [rule_format, of "Suc 0"] b [rule_format, of "Suc (Suc 0)"]
      b [rule_format, of "Suc (Suc (Suc 0))"]
    by simp_all
  then have ok: "lookup (remote (snd (make_dir [''e'', ''a'', ''b''] False False True None sample)))
         [''e''] = Some Dir
   \<and> lookup (remote (snd (make_dir [''e'', ''a'', ''b''] False False True None sample)))
         [''e'', ''a''] = Some Dir
   \<and> lookup (remote (snd (make_dir [''e'', ''a'', ''b''] False False True None sample)))
         [''e'', ''a'', ''b''] = Some Dir"
    using s' by simp
  have g: "live sample" "tree_ok (remote sample)" "[] \<notin> set [''t'', ''x'']"
    "lookup (remote sample) [''t'', ''x''] = None"
    by code_simp+
  have f: "Suc 0 \<le> length [''t'', ''x'']"
    "lookup (remote sample) (take (Suc 0) [''t'', ''x'']) = Some (File ''abc'' 5)"
    "take (Suc 0) [''t'', ''x''] = [''t'']" "mutations (calls sample) = []"
    by code_simp+
  note u = make_dir_missing_path [OF g, of False False True True]
  from u f(1,2) obtain s4 where
    "make_dir [''t'', ''x''] False False True None sample
       = (Inl (FileExistsError (take (Suc 0) [''t'', ''x''])), s4)"
    "mutations (calls s4) = mutations (calls sample)"
    by blast
  then have bl: "make_dir [''t'', ''x''] False False True None sample
       = (Inl (FileExistsError [''t'']), snd (make_dir [''t'', ''x''] False False True None sample))
   \<and> mutations (calls (snd (make_dir [''t'', ''x''] False False True None sample))) = []"
    using f(3,4) by simp
  show ?thesis using h n d a s' mu ok bl by simp
qed

text \<open>
  With \<open>fill\<close> set and \<open>overwrite\<close> not set, a file in the place of an ancestor stops the
  call in the check-only pass: nothing is created.
\<close>

theorem make_dir_blocked_by_file_ancestor:
  "live sample \<and> tree_ok (remote sample) \<and> lookup (remote sample) [''t'', ''x''] = None
   \<and> fst (make_dir [''t'', ''x''] False False True None sample) = Inl (FileExistsError [''t''])
   \<and> lookup (remote (snd (make_dir [''t'', ''x''] False False True None sample))) [''t'', ''x''] = None
   \<and> lookup (remote (snd (make_dir [''t'', ''x''] False False True None sample))) [''t'']
       = Some (File ''abc'' 5)"
  by code_simp

section \<open>Opening a file\<close>







end
